theory Spec2Isabelle
  imports Main "HOL-Library.AList"
begin

section \<open>Data model of \<^verbatim>\<open>src/app.js\<close>\<close>

text \<open>
  A configured server is a \<^verbatim>\<open>{name, ip}\<close> object. A probe result is
  \<^verbatim>\<open>{isHealthy, isPrimary}\<close>; the per-server health object carries the same two fields
  first, followed by the transition timestamps and the assignment flag. Timestamps are
  the integer milliseconds of \<^verbatim>\<open>Date.now()\<close>; \<^verbatim>\<open>null\<close> is \<open>None\<close>.
\<close>

record server =
  name :: string
  ip :: string

record healthResult =
  isHealthy :: bool
  isPrimary :: bool

record health = healthResult +
  lastHealthyTime :: "int option"
  lastUnhealthyTime :: "int option"
  isAssigned :: bool

text \<open>
  The global \<^verbatim>\<open>serverHealth\<close> object maps an IP string to its health object. It is an
  association list in insertion order; reading a key that is absent yields
  \<^verbatim>\<open>undefined\<close>, and reading a property of \<^verbatim>\<open>undefined\<close> throws a TypeError, which
  the functions below return as \<open>None\<close>.
\<close>

type_synonym serverHealth = "(string \<times> health) list"

definition GRACE_PERIOD_MS :: int where
  "GRACE_PERIOD_MS = 30 * 1000"

definition initialHealth :: health where
  "initialHealth =
     \<lparr>isHealthy = False, isPrimary = False, lastHealthyTime = None,
      lastUnhealthyTime = None, isAssigned = False\<rparr>"

text \<open>\<^verbatim>\<open>servers.forEach(s => { serverHealth[s.ip] = {...} })\<close> (lines 26-34).\<close>

definition initServerHealth :: "server list \<Rightarrow> serverHealth" where
  "initServerHealth servers =
     foldl (\<lambda>sh s. AList.update (ip s) initialHealth sh) [] servers"

text \<open>\<^verbatim>\<open>Object.values(serverHealth)\<close>: one value per key, the one a lookup finds.\<close>

definition Object_values :: "serverHealth \<Rightarrow> health list" where
  "Object_values sh = map snd (AList.clearjunk sh)"

text \<open>
  \<^verbatim>\<open>Object.values(serverHealth).filter(h => h.isHealthy && !h.isPrimary).length\<close>, the
  expression that lines 98, 124 and 193 share.
\<close>

definition healthyNonPrimaryCount :: "serverHealth \<Rightarrow> nat" where
  "healthyNonPrimaryCount sh =
     length (filter (\<lambda>h. isHealthy h \<and> \<not> isPrimary h) (Object_values sh))"

text \<open>Numeric coercion of a timestamp field in a subtraction: \<^verbatim>\<open>null\<close> becomes 0.\<close>

definition toNumber :: "int option \<Rightarrow> int" where
  "toNumber t = (case t of None \<Rightarrow> 0 | Some n \<Rightarrow> n)"

section \<open>Health probe\<close>

text \<open>
  A JSON value as the HTTP client hands it over in \<^verbatim>\<open>res.data\<close>, and the response fields
  that \<^verbatim>\<open>checkHealth\<close> reads.
\<close>

datatype jsValue =
  JUndefined
| JNull
| JBool bool
| JNumber int
| JString string
| JArray "jsValue list"
| JObject "(string \<times> jsValue) list"

record response =
  status :: int
  data :: jsValue

text \<open>
  What the program reads of a thrown error: \<^verbatim>\<open>error.response?.status\<close>,
  \<^verbatim>\<open>error.response?.data?.errors?.[0]?.code\<close> and \<^verbatim>\<open>error.code\<close>, each absent or
  present.
\<close>

record requestError =
  responseStatus :: "int option"
  providerCode :: "int option"
  errorCode :: "string option"

text \<open>An awaited promise is fulfilled with a value or rejected with an error.\<close>

datatype 'a outcome = Resolved 'a | Rejected requestError

text \<open>\<^verbatim>\<open>v?.key\<close>: \<^verbatim>\<open>undefined\<close> unless \<open>v\<close> is an object that has the key.\<close>

definition optionalMember :: "jsValue \<Rightarrow> string \<Rightarrow> jsValue" where
  "optionalMember v key =
     (case v of
        JObject members \<Rightarrow> (case map_of members key of None \<Rightarrow> JUndefined | Some x \<Rightarrow> x)
      | _ \<Rightarrow> JUndefined)"

text \<open>Truthiness of a value (\<^verbatim>\<open>ToBoolean\<close>).\<close>

definition truthy :: "jsValue \<Rightarrow> bool" where
  "truthy v =
     (case v of
        JUndefined \<Rightarrow> False
      | JNull \<Rightarrow> False
      | JBool b \<Rightarrow> b
      | JNumber n \<Rightarrow> n \<noteq> 0
      | JString str \<Rightarrow> str \<noteq> []
      | _ \<Rightarrow> True)"

text \<open>
  \<^verbatim>\<open>checkHealth(server, ip)\<close> (lines 36-64) as a function of what \<^verbatim>\<open>axios.get\<close> came
  back with. The client rejects on a timeout, on a transport error and on a status that
  its \<^verbatim>\<open>validateStatus\<close> refuses (by default every status outside 200-299).
\<close>

definition checkHealth :: "response outcome \<Rightarrow> healthResult" where
  "checkHealth got =
     (case got of
        Resolved res \<Rightarrow>
          \<lparr>isHealthy = (status res = 200),
           isPrimary = (optionalMember (data res) ''isMongoPrimary'' = JBool True)\<rparr>
      | Rejected e \<Rightarrow> \<lparr>isHealthy = False, isPrimary = False\<rparr>)"

section \<open>Health state store\<close>

text \<open>
  \<^verbatim>\<open>updateServerHealth(server, healthResult)\<close> (lines 71-88); the first argument is the
  reading of \<^verbatim>\<open>Date.now()\<close> on line 72.
\<close>

definition updateServerHealth ::
  "int \<Rightarrow> server \<Rightarrow> healthResult \<Rightarrow> serverHealth \<Rightarrow> serverHealth option" where
  "updateServerHealth now server healthResult sh =
     (case map_of sh (ip server) of
        None \<Rightarrow> None
      | Some health \<Rightarrow>
          (let health1 = health\<lparr>isPrimary := isPrimary healthResult\<rparr>;
               health2 =
                 (if isHealthy healthResult \<and> \<not> isHealthy health1
                  then health1\<lparr>lastHealthyTime := Some now, isHealthy := True\<rparr>
                  else if \<not> isHealthy healthResult \<and> isHealthy health1
                  then health1\<lparr>lastUnhealthyTime := Some now, isHealthy := False\<rparr>
                  else health1)
           in Some (AList.update (ip server) health2 sh)))"

text \<open>
  The loop of lines 253-255 over the probe results; \<open>stamp i\<close> is the time that the
  \<open>i\<close>-th call of \<open>updateServerHealth\<close> reads.
\<close>

fun updateServerHealths ::
  "(nat \<Rightarrow> int) \<Rightarrow> nat \<Rightarrow> (server \<times> healthResult) list \<Rightarrow> serverHealth \<Rightarrow> serverHealth option" where
  "updateServerHealths stamp i [] sh = Some sh"
| "updateServerHealths stamp i ((srv, healthResult) # rest) sh =
     (case updateServerHealth (stamp i) srv healthResult sh of
        None \<Rightarrow> None
      | Some sh' \<Rightarrow> updateServerHealths stamp (Suc i) rest sh')"

section \<open>Eligibility predicates\<close>

text \<open>\<^verbatim>\<open>shouldAssignIP(server)\<close> (lines 90-114).\<close>

definition shouldAssignIP :: "serverHealth \<Rightarrow> server \<Rightarrow> bool option" where
  "shouldAssignIP sh server =
     (case map_of sh (ip server) of
        None \<Rightarrow> None
      | Some health \<Rightarrow>
          if \<not> isHealthy health \<or> isAssigned health then Some False
          else if isPrimary health then
            (if healthyNonPrimaryCount sh > 0 then Some False else Some True)
          else Some True)"

text \<open>
  \<^verbatim>\<open>shouldUnassignIP(server, assignedCount)\<close> (lines 116-150); \<open>now\<close> is the reading of
  \<^verbatim>\<open>Date.now()\<close> on line 142.
\<close>

definition shouldUnassignIP :: "serverHealth \<Rightarrow> int \<Rightarrow> server \<Rightarrow> nat \<Rightarrow> bool option" where
  "shouldUnassignIP sh now server assignedCount =
     (case map_of sh (ip server) of
        None \<Rightarrow> None
      | Some health \<Rightarrow>
          if \<not> isAssigned health \<or> isHealthy health then Some False
          else if isPrimary health \<and> isHealthy health then
            (if healthyNonPrimaryCount sh > 0 then Some True else Some False)
          else if assignedCount \<le> 1 then Some False
          else
            (let timeSinceUnhealthy = now - toNumber (lastUnhealthyTime health)
             in if timeSinceUnhealthy < GRACE_PERIOD_MS then Some False else Some True))"

section \<open>Ground truth and actions\<close>

text \<open>
  A record of the provider's listing: \<^verbatim>\<open>r.id\<close> and \<^verbatim>\<open>r.content\<close> are the fields the
  program reads. An action is \<^verbatim>\<open>{type: 'assign', server}\<close> or
  \<^verbatim>\<open>{type: 'unassign', server, recordId}\<close>.
\<close>

record dnsRecord =
  id' :: string
  content :: string

datatype action =
  is_Assign: Assign (server: server)
| is_Unassign: Unassign (server: server) (recordId: string)

text \<open>
  \<^verbatim>\<open>Array.prototype.sort(compare)\<close>: a stable sort by a comparator that returns a
  negative number, zero or a positive number. For a consistent comparator the language
  fixes the result, which is the one this insertion sort computes.
\<close>

fun insert_by :: "('a \<Rightarrow> 'a \<Rightarrow> int) \<Rightarrow> 'a \<Rightarrow> 'a list \<Rightarrow> 'a list" where
  "insert_by compare x [] = [x]"
| "insert_by compare x (y # ys) =
     (if compare x y \<le> 0 then x # y # ys else y # insert_by compare x ys)"

definition Array_sort :: "('a \<Rightarrow> 'a \<Rightarrow> int) \<Rightarrow> 'a list \<Rightarrow> 'a list" where
  "Array_sort compare xs = foldr (insert_by compare) xs []"

text \<open>The comparator of lines 211-215.\<close>

definition compareActions :: "action \<Rightarrow> action \<Rightarrow> int" where
  "compareActions a b =
     (if is_Assign a \<and> is_Unassign b then - 1
      else if is_Unassign a \<and> is_Assign b then 1
      else 0)"

text \<open>\<^verbatim>\<open>currentRecords.find(r => r.content === server.ip)\<close>.\<close>

definition findRecord :: "dnsRecord list \<Rightarrow> string \<Rightarrow> dnsRecord option" where
  "findRecord currentRecords addr = List.find (\<lambda>r. content r = addr) currentRecords"

section \<open>Reconciliation planner\<close>

text \<open>
  Lines 164-166: every server's \<^verbatim>\<open>isAssigned\<close> is overwritten from the set of
  published addresses.
\<close>

fun updateAssignment :: "string set \<Rightarrow> server list \<Rightarrow> serverHealth \<Rightarrow> serverHealth option" where
  "updateAssignment currentIPs [] sh = Some sh"
| "updateAssignment currentIPs (s # rest) sh =
     (case map_of sh (ip s) of
        None \<Rightarrow> None
      | Some health \<Rightarrow>
          updateAssignment currentIPs rest
            (AList.update (ip s) (health\<lparr>isAssigned := ip s \<in> currentIPs\<rparr>) sh))"

text \<open>
  The body of the loop of lines 181-208 for one server: \<open>actions\<close> is the list built so
  far, \<open>now\<close> the clock reading that \<open>shouldUnassignIP\<close> takes in this iteration.
\<close>

definition decideServer ::
  "serverHealth \<Rightarrow> int \<Rightarrow> dnsRecord list \<Rightarrow> nat \<Rightarrow> action list \<Rightarrow> server \<Rightarrow> action list option" where
  "decideServer sh now currentRecords assignedCount actions srv =
     (case map_of sh (ip srv) of
        None \<Rightarrow> None
      | Some health \<Rightarrow>
          (case shouldAssignIP sh srv of
             None \<Rightarrow> None
           | Some assign \<Rightarrow>
               (case (if assign then Some False
                      else shouldUnassignIP sh now srv assignedCount) of
                  None \<Rightarrow> None
                | Some unassign \<Rightarrow>
                    (let actions1 =
                           (if assign then actions @ [Assign srv]
                            else if unassign then
                              (case findRecord currentRecords (ip srv) of
                                 Some r \<Rightarrow> actions @ [Unassign srv (id' r)]
                               | None \<Rightarrow> actions)
                            else actions);
                         actions2 =
                           (if isAssigned health \<and> isPrimary health \<and> isHealthy health then
                              (if healthyNonPrimaryCount sh > 0 then
                                 (case findRecord currentRecords (ip srv) of
                                    Some r \<Rightarrow>
                                      if List.find (\<lambda>a. is_Unassign a \<and> ip (server a) = ip srv)
                                           actions1 = None
                                      then actions1 @ [Unassign srv (id' r)]
                                      else actions1
                                  | None \<Rightarrow> actions1)
                               else actions1)
                            else actions1)
                     in Some actions2))))"

text \<open>
  The loop itself; \<open>clock i\<close> is the time read while the \<open>i\<close>-th server of the sorted
  list is evaluated.
\<close>

fun determineActions ::
  "serverHealth \<Rightarrow> (nat \<Rightarrow> int) \<Rightarrow> dnsRecord list \<Rightarrow> nat \<Rightarrow> nat \<Rightarrow> action list \<Rightarrow> server list
     \<Rightarrow> action list option" where
  "determineActions sh clock currentRecords assignedCount i actions [] = Some actions"
| "determineActions sh clock currentRecords assignedCount i actions (srv # rest) =
     (case decideServer sh (clock i) currentRecords assignedCount actions srv of
        None \<Rightarrow> None
      | Some actions' \<Rightarrow>
          determineActions sh clock currentRecords assignedCount (Suc i) actions' rest)"

text \<open>
  Lines 161-215 of \<^verbatim>\<open>manageDNSRecords\<close>: resynchronise, evaluate the servers in name
  order, sort the batch. \<open>localeCompare\<close> stands for \<^verbatim>\<open>String.prototype.localeCompare\<close>,
  which depends on the host's locale. The result is the resynchronised health map and
  the sorted batch.
\<close>

definition planActions ::
  "(string \<Rightarrow> string \<Rightarrow> int) \<Rightarrow> (nat \<Rightarrow> int) \<Rightarrow> server list \<Rightarrow> serverHealth \<Rightarrow> dnsRecord list
     \<Rightarrow> (serverHealth \<times> action list) option" where
  "planActions localeCompare clock servers sh currentRecords =
     (let currentIPs = set (map content currentRecords) in
      case updateAssignment currentIPs servers sh of
        None \<Rightarrow> None
      | Some sh' \<Rightarrow>
          (let assignedCount = card currentIPs;
               sortedServers = Array_sort (\<lambda>a b. localeCompare (name a) (name b)) servers
           in case determineActions sh' clock currentRecords assignedCount 0 [] sortedServers of
                None \<Rightarrow> None
              | Some actions \<Rightarrow> Some (sh', Array_sort compareActions actions)))"

section \<open>Input validation (\<^verbatim>\<open>lib/config.js\<close>, \<^verbatim>\<open>lib/cloudflare.js\<close>)\<close>

text \<open>\<^verbatim>\<open>ip.split('.')\<close>: the pieces between the dots, one more than there are dots.\<close>

fun split_dot :: "string \<Rightarrow> string list" where
  "split_dot [] = [[]]"
| "split_dot (c # cs) =
     (if c = CHR ''.'' then [] # split_dot cs
      else (case split_dot cs of [] \<Rightarrow> [[c]] | p # ps \<Rightarrow> (c # p) # ps))"

definition isDigit :: "char \<Rightarrow> bool" where
  "isDigit c = (c \<in> set ''0123456789'')"

text \<open>The test \<^verbatim>\<open>/^(0|[1-9]\d*)$/\<close>.\<close>

definition matchesOctet :: "string \<Rightarrow> bool" where
  "matchesOctet part =
     (part = ''0'' \<or>
      (case part of [] \<Rightarrow> False | c # cs \<Rightarrow> c \<in> set ''123456789'' \<and> list_all isDigit cs))"

text \<open>\<^verbatim>\<open>parseInt(part, 10)\<close> on a string of decimal digits.\<close>

definition parseInt :: "string \<Rightarrow> int" where
  "parseInt part = foldl (\<lambda>n c. 10 * n + (of_char c - 48)) 0 part"

definition isValidIP :: "string \<Rightarrow> bool" where
  "isValidIP addr =
     (let parts = split_dot addr in
      if length parts \<noteq> 4 then False
      else list_all (\<lambda>part.
             if \<not> matchesOctet part then False
             else (let num = parseInt part in num \<ge> 0 \<and> num \<le> 255)) parts)"

text \<open>The test \<^verbatim>\<open>/^[a-f0-9]{32}$/\<close> of \<^verbatim>\<open>deleteRecord\<close>.\<close>

definition matchesRecordId :: "string \<Rightarrow> bool" where
  "matchesRecordId rid = (length rid = 32 \<and> list_all (\<lambda>c. c \<in> set ''abcdef0123456789'') rid)"

section \<open>Provider calls and the application of a batch\<close>

text \<open>
  \<^verbatim>\<open>createRecord\<close> and \<^verbatim>\<open>deleteRecord\<close> validate their argument and then go through
  \<^verbatim>\<open>makeRequest\<close>. Whether that call came back without an exception is the input
  \<open>accepted\<close>; \<open>None\<close> is a thrown exception. The provider's zone is the list of its A
  records: an accepted creation adds a record under the id the provider chose for it,
  an accepted deletion removes the record with the given id.
\<close>

definition createRecord :: "bool \<Rightarrow> string \<Rightarrow> string \<Rightarrow> dnsRecord list \<Rightarrow> dnsRecord list option" where
  "createRecord accepted newId addr zone =
     (if \<not> isValidIP addr then None
      else if accepted then Some (zone @ [\<lparr>id' = newId, content = addr\<rparr>])
      else None)"

definition deleteRecord :: "bool \<Rightarrow> string \<Rightarrow> dnsRecord list \<Rightarrow> dnsRecord list option" where
  "deleteRecord accepted rid zone =
     (if \<not> matchesRecordId rid then None
      else if accepted then Some (filter (\<lambda>r. id' r \<noteq> rid) zone)
      else None)"

text \<open>
  One turn of the loop of lines 218-230. The state is the health map, the provider's
  zone and the actions whose failure was caught and logged. Writing \<^verbatim>\<open>isAssigned\<close>
  happens inside the \<^verbatim>\<open>try\<close>, after the provider call.
\<close>

definition executeAction ::
  "bool \<Rightarrow> string \<Rightarrow> action \<Rightarrow> serverHealth \<times> dnsRecord list \<times> action list
     \<Rightarrow> serverHealth \<times> dnsRecord list \<times> action list" where
  "executeAction accepted newId a st =
     (case st of (sh, zone, failed) \<Rightarrow>
        (case a of
           Assign srv \<Rightarrow>
             (case createRecord accepted newId (ip srv) zone of
                None \<Rightarrow> (sh, zone, failed @ [a])
              | Some zone' \<Rightarrow>
                  (case map_of sh (ip srv) of
                     None \<Rightarrow> (sh, zone', failed @ [a])
                   | Some h \<Rightarrow> (AList.update (ip srv) (h\<lparr>isAssigned := True\<rparr>) sh, zone', failed)))
         | Unassign srv rid \<Rightarrow>
             (case deleteRecord accepted rid zone of
                None \<Rightarrow> (sh, zone, failed @ [a])
              | Some zone' \<Rightarrow>
                  (case map_of sh (ip srv) of
                     None \<Rightarrow> (sh, zone', failed @ [a])
                   | Some h \<Rightarrow> (AList.update (ip srv) (h\<lparr>isAssigned := False\<rparr>) sh, zone', failed)))))"

text \<open>
  The loop: the \<open>i\<close>-th call of the batch is accepted iff \<open>accepted i\<close>, and a record it
  creates gets the id \<open>newId i\<close>.
\<close>

fun executeActions ::
  "(nat \<Rightarrow> bool) \<Rightarrow> (nat \<Rightarrow> string) \<Rightarrow> nat \<Rightarrow> action list
     \<Rightarrow> serverHealth \<times> dnsRecord list \<times> action list
     \<Rightarrow> serverHealth \<times> dnsRecord list \<times> action list" where
  "executeActions accepted newId i [] st = st"
| "executeActions accepted newId i (a # rest) st =
     executeActions accepted newId (Suc i) rest (executeAction (accepted i) (newId i) a st)"

text \<open>
  \<^verbatim>\<open>manageDNSRecords\<close> (lines 152-233) on the health map and the provider's zone.
  \<open>fetched\<close> says whether \<^verbatim>\<open>getAllDNSRecords\<close> returned the zone's records; when it
  threw, the cycle is skipped. \<open>None\<close> is a TypeError that leaves the function.
\<close>

definition manageDNSRecords ::
  "(string \<Rightarrow> string \<Rightarrow> int) \<Rightarrow> (nat \<Rightarrow> int) \<Rightarrow> bool \<Rightarrow> (nat \<Rightarrow> bool) \<Rightarrow> (nat \<Rightarrow> string)
     \<Rightarrow> server list \<Rightarrow> serverHealth \<times> dnsRecord list
     \<Rightarrow> (serverHealth \<times> dnsRecord list \<times> action list) option" where
  "manageDNSRecords localeCompare clock fetched accepted newId servers st =
     (case st of (sh, zone) \<Rightarrow>
        if \<not> fetched then Some (sh, zone, [])
        else
          (case planActions localeCompare clock servers sh zone of
             None \<Rightarrow> None
           | Some (sh', sortedActions) \<Rightarrow>
               Some (executeActions accepted newId 0 sortedActions (sh', zone, []))))"

section \<open>Retrying client (\<^verbatim>\<open>lib/cloudflare.js\<close>)\<close>

text \<open>The fields of \<^verbatim>\<open>CloudflareAPI\<close> that \<^verbatim>\<open>makeRequest\<close> uses, and its constructor.\<close>

record client =
  lastRequest :: int
  minInterval :: int
  retryDelays :: "int list"

definition newClient :: client where
  "newClient = \<lparr>lastRequest = 0, minInterval = 1000, retryDelays = [1000, 2000, 4000, 8000]\<rparr>"

text \<open>
  What a call of \<^verbatim>\<open>makeRequest\<close> does, in order: a wait of the rate limiter, the call of
  \<^verbatim>\<open>requestFn\<close> in an attempt, a wait before the next attempt (milliseconds).
\<close>

datatype event = is_RateLimitWait: RateLimitWait int | Request nat | Backoff int

text \<open>How the call ends; leaving the loop would return \<^verbatim>\<open>undefined\<close>.\<close>

datatype 'a completion = Return 'a | Throw requestError | ReturnUndefined

text \<open>Lines 35-37.\<close>

definition isRetryable :: "requestError \<Rightarrow> bool" where
  "isRetryable error =
     (let isRateLimit = (responseStatus error = Some 429 \<or> providerCode error = Some 10013)
      in isRateLimit \<or> errorCode error = Some ''ECONNRESET'' \<or> errorCode error = Some ''ETIMEDOUT''
         \<or> (case responseStatus error of None \<Rightarrow> False | Some st \<Rightarrow> st \<ge> 500 \<and> st < 600))"

text \<open>
  The loop of \<^verbatim>\<open>makeRequest\<close> (lines 16-48) from a given attempt on. \<open>requestFn attempt\<close>
  is how the request of that attempt ends; \<open>readings attempt\<close> are the two readings of
  \<^verbatim>\<open>Date.now()\<close> in that attempt (lines 19 and 25).
\<close>

function makeRequestFrom ::
  "(nat \<Rightarrow> 'a outcome) \<Rightarrow> (nat \<Rightarrow> int \<times> int) \<Rightarrow> nat \<Rightarrow> client \<Rightarrow> event list
     \<Rightarrow> 'a completion \<times> client \<times> event list" where
  "makeRequestFrom requestFn readings attempt c trace =
     (let maxRetries = length (retryDelays c) in
      if attempt \<le> maxRetries then
        (let now = fst (readings attempt);
             timeSinceLastRequest = now - lastRequest c;
             trace1 =
               (if timeSinceLastRequest < minInterval c
                then trace @ [RateLimitWait (minInterval c - timeSinceLastRequest)]
                else trace);
             c1 = c\<lparr>lastRequest := snd (readings attempt)\<rparr>;
             trace2 = trace1 @ [Request attempt]
         in case requestFn attempt of
              Resolved result \<Rightarrow> (Return result, c1, trace2)
            | Rejected error \<Rightarrow>
                (let isLastAttempt = (attempt = maxRetries) in
                 if isLastAttempt \<or> \<not> isRetryable error then (Throw error, c1, trace2)
                 else makeRequestFrom requestFn readings (Suc attempt) c1
                        (trace2 @ [Backoff (retryDelays c ! attempt)])))
      else (ReturnUndefined, c, trace))"
  by pat_completeness auto
termination
  by (relation "measure (\<lambda>(requestFn, readings, attempt, c, trace).
                  Suc (length (retryDelays c)) - attempt)") auto

definition makeRequest ::
  "(nat \<Rightarrow> 'a outcome) \<Rightarrow> (nat \<Rightarrow> int \<times> int) \<Rightarrow> client \<Rightarrow> 'a completion \<times> client \<times> event list" where
  "makeRequest requestFn readings c = makeRequestFrom requestFn readings 0 c []"

section \<open>Specification predicates\<close>

text \<open>
  The demotion condition of lines 192-198: the server is published, healthy and
  primary-flagged while a healthy non-primary server is tracked.
\<close>

definition demotion :: "serverHealth \<Rightarrow> server \<Rightarrow> bool" where
  "demotion sh srv =
     (\<exists>h. map_of sh (ip srv) = Some h \<and> isAssigned h \<and> isPrimary h \<and> isHealthy h
          \<and> healthyNonPrimaryCount sh > 0)"

text \<open>
  What stands behind an action that the loop, started at clock index \<open>i\<close>, adds for
  one of \<open>servers\<close>: an assign is backed by \<open>shouldAssignIP\<close>; an unassign carries the id
  of the first record with the server's address and is backed by \<open>shouldUnassignIP\<close> at
  the server's own clock reading or by the demotion condition.
\<close>

definition justified ::
  "serverHealth \<Rightarrow> dnsRecord list \<Rightarrow> nat \<Rightarrow> (nat \<Rightarrow> int) \<Rightarrow> nat \<Rightarrow> server list \<Rightarrow> action \<Rightarrow> bool" where
  "justified sh currentRecords assignedCount clock i servers a =
     (server a \<in> set servers \<and>
      (case a of
         Assign srv \<Rightarrow> shouldAssignIP sh srv = Some True
       | Unassign srv rid \<Rightarrow>
           (\<exists>r. findRecord currentRecords (ip srv) = Some r \<and> rid = id' r) \<and>
           ((\<exists>j < length servers. servers ! j = srv \<and>
                shouldUnassignIP sh (clock (i + j)) srv assignedCount = Some True)
            \<or> demotion sh srv)))"

text \<open>How an awaited outcome leaves \<^verbatim>\<open>makeRequest\<close>: returned, or thrown on.\<close>

definition settle :: "'a outcome \<Rightarrow> 'a completion" where
  "settle got = (case got of Resolved v \<Rightarrow> Return v | Rejected e \<Rightarrow> Throw e)"

section \<open>Example configuration\<close>

definition srvA :: server where "srvA = \<lparr>name = ''alpha'', ip = ''10.0.0.1''\<rparr>"
definition srvB :: server where "srvB = \<lparr>name = ''bravo'', ip = ''10.0.0.2''\<rparr>"
definition srvC :: server where "srvC = \<lparr>name = ''charlie'', ip = ''10.0.0.3''\<rparr>"

definition mkHealth :: "bool \<Rightarrow> bool \<Rightarrow> int option \<Rightarrow> health" where
  "mkHealth h p t =
     \<lparr>isHealthy = h, isPrimary = p, lastHealthyTime = None,
      lastUnhealthyTime = t, isAssigned = False\<rparr>"

text \<open>A comparison of names by character code, for the examples.\<close>

fun compareNames :: "string \<Rightarrow> string \<Rightarrow> int" where
  "compareNames [] [] = 0"
| "compareNames [] (b # bs) = - 1"
| "compareNames (a # as) [] = 1"
| "compareNames (a # as) (b # bs) =
     (if (of_char a :: nat) < of_char b then - 1
      else if (of_char b :: nat) < of_char a then 1
      else compareNames as bs)"

definition recA :: dnsRecord where
  "recA = \<lparr>id' = ''a0000000000000000000000000000001'', content = ''10.0.0.1''\<rparr>"
definition recB :: dnsRecord where
  "recB = \<lparr>id' = ''b0000000000000000000000000000002'', content = ''10.0.0.2''\<rparr>"
definition recC :: dnsRecord where
  "recC = \<lparr>id' = ''c0000000000000000000000000000003'', content = ''10.0.0.3''\<rparr>"

definition scenario1 :: serverHealth where
  "scenario1 =
     [(ip srvC, mkHealth False False (Some 55000)),
      (ip srvA, mkHealth True False None),
      (ip srvB, mkHealth True False None)]"

text \<open>A clock that stands still, a provider that accepts every call, and its new ids.\<close>

definition clockAt :: "int \<Rightarrow> nat \<Rightarrow> int" where
  "clockAt t i = t"

definition allAccepted :: "nat \<Rightarrow> bool" where
  "allAccepted i = True"

definition freshIds :: "nat \<Rightarrow> string" where
  "freshIds i = ''ffffffffffffffffffffffffffffffff''"

text \<open>
  Both servers down and published, \<open>alpha\<close> for 45 s and \<open>bravo\<close> for 5 s at time
  100000.
\<close>

definition allDown :: serverHealth where
  "allDown =
     [(ip srvA, mkHealth False False (Some 55000)),
      (ip srvB, mkHealth False False (Some 95000))]"

text \<open>\<open>alpha\<close> is healthy and primary, \<open>bravo\<close> healthy and not primary.\<close>

definition primaryAndOther :: serverHealth where
  "primaryAndOther =
     [(ip srvA, mkHealth True True None),
      (ip srvB, mkHealth True False None)]"

text \<open>
  A call that is rate-limited four times and then succeeds, a call that is refused with
  status 404, and clock readings 20 s apart.
\<close>

definition flaky :: "nat \<Rightarrow> string outcome" where
  "flaky i =
     (if i < 4 then Rejected \<lparr>responseStatus = Some 429, providerCode = None, errorCode = None\<rparr>
      else Resolved ''ok'')"

definition notFound :: "nat \<Rightarrow> string outcome" where
  "notFound i = Rejected \<lparr>responseStatus = Some 404, providerCode = None, errorCode = None\<rparr>"

definition slowReadings :: "nat \<Rightarrow> int \<times> int" where
  "slowReadings i = (5000 + 20000 * int i, 5000 + 20000 * int i)"

text \<open>
  \<open>charlie\<close> is down for 45 s and the only published server; \<open>bravo\<close> is healthy and
  not published.
\<close>

definition oneKept :: serverHealth where
  "oneKept =
     [(ip srvB, mkHealth True False None),
      (ip srvC, mkHealth False False (Some 55000))]"

section \<open>Evaluating the examples\<close>

lemmas ex_defs =
  srvA_def srvB_def srvC_def recA_def recB_def recC_def mkHealth_def scenario1_def
  clockAt_def allAccepted_def freshIds_def allDown_def primaryAndOther_def oneKept_def

lemmas run_defs =
  planActions_def Array_sort_def decideServer_def shouldAssignIP_def shouldUnassignIP_def
  healthyNonPrimaryCount_def Object_values_def findRecord_def compareActions_def toNumber_def
  GRACE_PERIOD_MS_def manageDNSRecords_def executeAction_def createRecord_def deleteRecord_def
  isValidIP_def matchesOctet_def parseInt_def isDigit_def matchesRecordId_def

lemma scenario1_plan:
  "planActions compareNames (clockAt 100000) [srvC, srvA, srvB] scenario1 [recA, recC] =
   Some ([(ip srvC, (mkHealth False False (Some 55000))\<lparr>isAssigned := True\<rparr>),
          (ip srvA, (mkHealth True False None)\<lparr>isAssigned := True\<rparr>),
          (ip srvB, mkHealth True False None)],
         [Assign srvB, Unassign srvC (id' recC)])"
  by (simp add: ex_defs run_defs)

lemma scenario1_run:
  "manageDNSRecords compareNames (clockAt 100000) True allAccepted freshIds
      [srvC, srvA, srvB] (scenario1, [recA, recC]) =
   Some ([(ip srvC, mkHealth False False (Some 55000)),
          (ip srvA, (mkHealth True False None)\<lparr>isAssigned := True\<rparr>),
          (ip srvB, (mkHealth True False None)\<lparr>isAssigned := True\<rparr>)],
         [recA, \<lparr>id' = freshIds 0, content = ip srvB\<rparr>], [])"
  by (simp add: ex_defs run_defs)



lemma primaryAndOther_plan:
  "planActions compareNames (clockAt 100000) [srvA, srvB] primaryAndOther [recA] =
   Some ([(ip srvA, (mkHealth True True None)\<lparr>isAssigned := True\<rparr>),
          (ip srvB, mkHealth True False None)],
         [Assign srvB, Unassign srvA (id' recA)])"
  by (simp add: ex_defs run_defs)

lemma scenario1_sorted:
  "Array_sort (\<lambda>a b. compareNames (name a) (name b)) [srvC, srvA, srvB] = [srvA, srvB, srvC]"
  by (simp add: ex_defs Array_sort_def)

section \<open>Facts about the health map\<close>

lemma healthyNonPrimaryCount_pos:
  "(healthyNonPrimaryCount sh > 0) =
     (\<exists>k h. map_of sh k = Some h \<and> isHealthy h \<and> \<not> isPrimary h)"
proof -
  have "ran (map_of sh) = snd ` set (AList.clearjunk sh)"
    using ran_distinct [OF AList.distinct_clearjunk, of sh]
    by (simp add: AList.map_of_clearjunk)
  then have "(\<exists>h \<in> set (Object_values sh). isHealthy h \<and> \<not> isPrimary h) =
             (\<exists>h \<in> ran (map_of sh). isHealthy h \<and> \<not> isPrimary h)"
    by (simp add: Object_values_def)
  moreover have "(healthyNonPrimaryCount sh > 0) =
                 (\<exists>h \<in> set (Object_values sh). isHealthy h \<and> \<not> isPrimary h)"
    by (auto simp: healthyNonPrimaryCount_def filter_empty_conv)
  ultimately show ?thesis
    by (auto simp: ran_def)
qed

section \<open>Grace period\<close>

text \<open>
  C3. For an assigned, unhealthy, non-primary server whose removal leaves at least one
  published address (\<open>assignedCount - 1 \<ge> 1\<close>) and whose last unhealthy transition was
  at \<open>T\<close>: at a planning time \<open>t\<close> the server is eligible for removal exactly when
  \<open>t \<ge> T + 30 s\<close>; so it is not eligible at any \<open>t < T + 30000\<close> and eligible at every
  \<open>t \<ge> T + 30000\<close> (milliseconds).
\<close>

theorem shouldUnassignIP_grace_timing:
  assumes "map_of sh (ip s) = Some h"
    and "isAssigned h" and "\<not> isHealthy h" and "\<not> isPrimary h"
    and "lastUnhealthyTime h = Some T"
    and "1 \<le> assignedCount - 1"
  shows "shouldUnassignIP sh t s assignedCount = Some (T + 30000 \<le> t)"
  using assms
  by (auto simp: shouldUnassignIP_def toNumber_def GRACE_PERIOD_MS_def Let_def)

theorem shouldUnassignIP_grace_timing_witness:
  "shouldUnassignIP [(ip srvC, (mkHealth False False (Some 1000))\<lparr>isAssigned := True\<rparr>)]
      30999 srvC 2 = Some False
   \<and> shouldUnassignIP [(ip srvC, (mkHealth False False (Some 1000))\<lparr>isAssigned := True\<rparr>)]
      31000 srvC 2 = Some True"
  using
    shouldUnassignIP_grace_timing
      [of "[(ip srvC, (mkHealth False False (Some 1000))\<lparr>isAssigned := True\<rparr>)]" srvC
          "(mkHealth False False (Some 1000))\<lparr>isAssigned := True\<rparr>" 1000 2 30999]
    shouldUnassignIP_grace_timing
      [of "[(ip srvC, (mkHealth False False (Some 1000))\<lparr>isAssigned := True\<rparr>)]" srvC
          "(mkHealth False False (Some 1000))\<lparr>isAssigned := True\<rparr>" 1000 2 31000]
  by (simp add: mkHealth_def)

section \<open>Assignment eligibility\<close>

text \<open>
  C4. For a tracked server with health object \<open>h\<close>, \<open>shouldAssignIP\<close> returns true iff
  the server is healthy, not assigned, and either not primary-flagged or no healthy
  non-primary server is tracked. Consequently (second and third conjunct) a primary
  server is not newly assigned while a healthy non-primary server exists, and a healthy
  unassigned primary server is assigned when no healthy non-primary server exists.
\<close>

theorem shouldAssignIP_iff:
  assumes "map_of sh (ip s) = Some h"
  shows "shouldAssignIP sh s =
           Some (isHealthy h \<and> \<not> isAssigned h \<and>
                 (\<not> isPrimary h \<or>
                  \<not> (\<exists>k h'. map_of sh k = Some h' \<and> isHealthy h' \<and> \<not> isPrimary h')))
       \<and> (isPrimary h \<and> (\<exists>k h'. map_of sh k = Some h' \<and> isHealthy h' \<and> \<not> isPrimary h')
            \<longrightarrow> shouldAssignIP sh s = Some False)
       \<and> (isPrimary h \<and> isHealthy h \<and> \<not> isAssigned h
            \<and> \<not> (\<exists>k h'. map_of sh k = Some h' \<and> isHealthy h' \<and> \<not> isPrimary h')
            \<longrightarrow> shouldAssignIP sh s = Some True)"
  using assms healthyNonPrimaryCount_pos [of sh]
  by (auto simp: shouldAssignIP_def)

theorem shouldAssignIP_iff_witness:
  "shouldAssignIP primaryAndOther srvA = Some False
   \<and> shouldAssignIP [(ip srvA, mkHealth True True None)] srvA = Some True"
proof -
  have a: "map_of primaryAndOther (ip srvA) = Some (mkHealth True True None)"
    by (simp add: ex_defs)
  have b: "isPrimary (mkHealth True True None) \<and>
           (\<exists>k h'. map_of primaryAndOther k = Some h' \<and> isHealthy h' \<and> \<not> isPrimary h')"
    by (auto simp: ex_defs intro!: exI [of _ "''10.0.0.2''"])
  have c: "map_of [(ip srvA, mkHealth True True None)] (ip srvA) = Some (mkHealth True True None)"
    by simp
  have d: "isPrimary (mkHealth True True None) \<and> isHealthy (mkHealth True True None)
           \<and> \<not> isAssigned (mkHealth True True None)
           \<and> \<not> (\<exists>k h'. map_of [(ip srvA, mkHealth True True None)] k = Some h'
                   \<and> isHealthy h' \<and> \<not> isPrimary h')"
    by (auto simp: ex_defs)
  from shouldAssignIP_iff [OF a] b shouldAssignIP_iff [OF c] d show ?thesis
    by blast
qed

section \<open>Facts about sorting and resynchronisation\<close>

lemma set_insert_by: "set (insert_by c x xs) = insert x (set xs)"
  by (induction xs) auto

lemma set_Array_sort: "set (Array_sort c xs) = set xs"
  by (induction xs) (auto simp: Array_sort_def set_insert_by)

lemma length_insert_by: "length (insert_by c x xs) = Suc (length xs)"
  by (induction xs) auto

lemma length_Array_sort: "length (Array_sort c xs) = length xs"
  by (induction xs) (auto simp: Array_sort_def length_insert_by)

lemma insert_by_compareActions:
  assumes "\<forall>a\<in>set as. is_Assign a" and "\<forall>u\<in>set us. is_Unassign u"
  shows "insert_by compareActions x (as @ us) =
           (if is_Assign x then x # as @ us else as @ x # us)"
  using assms
proof (induction as)
  case Nil
  then show ?case
    by (cases us) (auto simp: compareActions_def action.disc_eq_case split: action.splits)
next
  case (Cons a as)
  then show ?case
    by (auto simp: compareActions_def action.disc_eq_case split: action.splits)
qed

lemma Array_sort_compareActions:
  "Array_sort compareActions xs = filter is_Assign xs @ filter is_Unassign xs"
proof (induction xs)
  case Nil
  then show ?case by (simp add: Array_sort_def)
next
  case (Cons x xs)
  have "Array_sort compareActions (x # xs) = insert_by compareActions x (Array_sort compareActions xs)"
    by (simp add: Array_sort_def)
  also have "\<dots> = insert_by compareActions x (filter is_Assign xs @ filter is_Unassign xs)"
    by (simp add: Cons.IH)
  also have "\<dots> = (if is_Assign x then x # filter is_Assign xs @ filter is_Unassign xs
                   else filter is_Assign xs @ x # filter is_Unassign xs)"
    by (rule insert_by_compareActions) auto
  also have "\<dots> = filter is_Assign (x # xs) @ filter is_Unassign (x # xs)"
    by (cases x) auto
  finally show ?case .
qed

lemma updateAssignment_map_of:
  "updateAssignment ips servers sh = Some sh' \<Longrightarrow>
   map_of sh' k =
     map_option (\<lambda>h. if k \<in> ip ` set servers then h\<lparr>isAssigned := k \<in> ips\<rparr> else h) (map_of sh k)"
proof (induction servers arbitrary: sh)
  case Nil
  then show ?case by (simp add: option.map_ident)
next
  case (Cons s rest)
  from Cons.prems obtain h where h: "map_of sh (ip s) = Some h"
    and rest: "updateAssignment ips rest (AList.update (ip s) (h\<lparr>isAssigned := ip s \<in> ips\<rparr>) sh) = Some sh'"
    by (auto split: option.splits)
  show ?case
    using Cons.IH [OF rest] h
    by (cases "map_of sh k") (auto simp: AList.update_conv')
qed

lemma updateAssignment_Some:
  "\<forall>s\<in>set servers. map_of sh (ip s) \<noteq> None \<Longrightarrow> \<exists>sh'. updateAssignment ips servers sh = Some sh'"
proof (induction servers arbitrary: sh)
  case Nil
  then show ?case by simp
next
  case (Cons s rest)
  then obtain h where h: "map_of sh (ip s) = Some h" by auto
  have "\<forall>t\<in>set rest. map_of (AList.update (ip s) (h\<lparr>isAssigned := ip s \<in> ips\<rparr>) sh) (ip t) \<noteq> None"
    using Cons.prems by (auto simp: AList.update_conv')
  from Cons.IH [OF this] show ?case using h by simp
qed

section \<open>Facts about the planner\<close>

lemma decideServer_eq:
  assumes h: "map_of sh (ip srv) = Some h"
  shows "decideServer sh now recs n actions srv =
    Some (actions @
      (if shouldAssignIP sh srv = Some True then [Assign srv]
       else case findRecord recs (ip srv) of
              None \<Rightarrow> []
            | Some r \<Rightarrow>
                if shouldUnassignIP sh now srv n = Some True then [Unassign srv (id' r)]
                else if demotion sh srv
                        \<and> List.find (\<lambda>a. is_Unassign a \<and> ip (server a) = ip srv) actions = None
                then [Unassign srv (id' r)] else []))"
  using h
  by (auto simp: decideServer_def shouldAssignIP_def shouldUnassignIP_def Let_def demotion_def
           split: option.splits)

lemma decideServer_tracked:
  "decideServer sh now recs n actions srv = Some actions' \<Longrightarrow> \<exists>h. map_of sh (ip srv) = Some h"
  by (auto simp: decideServer_def split: option.splits)

lemma determineActions_Some:
  "\<forall>s\<in>set servers. map_of sh (ip s) \<noteq> None \<Longrightarrow>
   \<exists>result. determineActions sh clock recs n i actions servers = Some result"
proof (induction servers arbitrary: i actions)
  case Nil
  then show ?case by simp
next
  case (Cons s rest)
  then obtain h where h: "map_of sh (ip s) = Some h" by auto
  show ?case
    using Cons.IH [of] Cons.prems
    by (simp add: decideServer_eq [OF h])
qed

lemma justified_tail:
  "justified sh recs n clock (Suc i) rest a \<Longrightarrow> justified sh recs n clock i (s # rest) a"
proof (cases a)
  case (Assign srv)
  assume "justified sh recs n clock (Suc i) rest a"
  with Assign show ?thesis by (simp add: justified_def)
next
  case (Unassign srv rid)
  assume "justified sh recs n clock (Suc i) rest a"
  with Unassign have m: "srv \<in> set rest"
    and r: "\<exists>r. findRecord recs (ip srv) = Some r \<and> rid = id' r"
    and d: "(\<exists>j < length rest. rest ! j = srv \<and>
               shouldUnassignIP sh (clock (Suc i + j)) srv n = Some True) \<or> demotion sh srv"
    by (auto simp: justified_def)
  from d have "(\<exists>j < length (s # rest). (s # rest) ! j = srv \<and>
               shouldUnassignIP sh (clock (i + j)) srv n = Some True) \<or> demotion sh srv"
  proof
    assume "\<exists>j < length rest. rest ! j = srv \<and>
               shouldUnassignIP sh (clock (Suc i + j)) srv n = Some True"
    then obtain j where "j < length rest" "rest ! j = srv"
      "shouldUnassignIP sh (clock (Suc i + j)) srv n = Some True" by blast
    then have "Suc j < length (s # rest) \<and> (s # rest) ! Suc j = srv \<and>
               shouldUnassignIP sh (clock (i + Suc j)) srv n = Some True" by simp
    then show ?thesis by blast
  qed simp
  with m r Unassign show ?thesis by (simp add: justified_def)
qed

lemma decideServer_justified:
  assumes "decideServer sh (clock i) recs n actions s = Some actions'"
  shows "\<exists>first. actions' = actions @ first \<and>
           (\<forall>a\<in>set first. justified sh recs n clock i (s # rest) a)"
proof -
  from decideServer_tracked [OF assms] obtain h where h: "map_of sh (ip s) = Some h" ..
  have z: "\<exists>j<Suc (length rest). (s # rest) ! j = s \<and> P j" if "P 0" for P
    using that by (intro exI [of _ 0]) simp
  show ?thesis
    using assms unfolding decideServer_eq [OF h]
    by (auto simp: justified_def z split: option.splits if_splits)
qed

lemma determineActions_sound:
  assumes "determineActions sh clock recs n i actions servers = Some result"
  shows "\<exists>new. result = actions @ new \<and> (\<forall>a\<in>set new. justified sh recs n clock i servers a)"
  using assms
proof (induction servers arbitrary: i actions)
  case Nil
  then show ?case by simp
next
  case (Cons s rest)
  from Cons.prems obtain actions' where
    step: "decideServer sh (clock i) recs n actions s = Some actions'"
    and rest: "determineActions sh clock recs n (Suc i) actions' rest = Some result"
    by (auto split: option.splits)
  from Cons.IH [OF rest] obtain new where new: "result = actions' @ new"
    and newP: "\<forall>a\<in>set new. justified sh recs n clock (Suc i) rest a"
    by blast
  from decideServer_justified [of sh clock i recs n actions s actions' rest, OF step]
  obtain first where first: "actions' = actions @ first"
    and firstP: "\<forall>a\<in>set first. justified sh recs n clock i (s # rest) a"
    by blast
  have "\<forall>a\<in>set (first @ new). justified sh recs n clock i (s # rest) a"
    using firstP newP by (auto intro: justified_tail)
  moreover have "result = actions @ (first @ new)"
    using new first by simp
  ultimately show ?case by blast
qed

lemma determineActions_assign:
  assumes "determineActions sh clock recs n i actions servers = Some result"
    and "srv \<in> set servers" and "shouldAssignIP sh srv = Some True"
  shows "Assign srv \<in> set result"
  using assms
proof (induction servers arbitrary: i actions)
  case Nil
  then show ?case by simp
next
  case (Cons s rest)
  from Cons.prems(1) obtain actions' where
    step: "decideServer sh (clock i) recs n actions s = Some actions'"
    and rest: "determineActions sh clock recs n (Suc i) actions' rest = Some result"
    by (auto split: option.splits)
  from decideServer_tracked [OF step] obtain h where h: "map_of sh (ip s) = Some h" ..
  from determineActions_sound [OF rest] have sub: "set actions' \<subseteq> set result" by auto
  show ?case
  proof (cases "srv = s")
    case True
    with step Cons.prems(3) have "Assign srv \<in> set actions'"
      unfolding decideServer_eq [OF h] by auto
    with sub show ?thesis by blast
  next
    case False
    with Cons.prems(2) have "srv \<in> set rest" by simp
    from Cons.IH [OF rest this Cons.prems(3)] show ?thesis .
  qed
qed

lemma determineActions_unassign:
  assumes "determineActions sh clock recs n i actions servers = Some result"
    and "j < length servers" and "servers ! j = srv"
    and "shouldUnassignIP sh (clock (i + j)) srv n = Some True"
    and "findRecord recs (ip srv) = Some r"
  shows "Unassign srv (id' r) \<in> set result"
  using assms
proof (induction servers arbitrary: i j actions)
  case Nil
  then show ?case by simp
next
  case (Cons s rest)
  from Cons.prems(1) obtain actions' where
    step: "decideServer sh (clock i) recs n actions s = Some actions'"
    and rest: "determineActions sh clock recs n (Suc i) actions' rest = Some result"
    by (auto split: option.splits)
  from decideServer_tracked [OF step] obtain h where h: "map_of sh (ip s) = Some h" ..
  from determineActions_sound [OF rest] have sub: "set actions' \<subseteq> set result" by auto
  show ?case
  proof (cases j)
    case 0
    with Cons.prems have s: "srv = s" and u: "shouldUnassignIP sh (clock i) s n = Some True"
      by auto
    from u h have "shouldAssignIP sh s \<noteq> Some True"
      by (auto simp: shouldUnassignIP_def shouldAssignIP_def split: if_splits)
    with step u Cons.prems(5) s have "Unassign srv (id' r) \<in> set actions'"
      unfolding decideServer_eq [OF h] by auto
    with sub show ?thesis by blast
  next
    case (Suc j')
    with Cons.prems have "j' < length rest" "rest ! j' = srv"
      "shouldUnassignIP sh (clock (Suc i + j')) srv n = Some True" by auto
    from Cons.IH [OF rest this Cons.prems(5)] show ?thesis .
  qed
qed

lemma determineActions_demote:
  assumes "determineActions sh clock recs n i actions servers = Some result"
    and "srv \<in> set servers" and "demotion sh srv"
    and "findRecord recs (ip srv) = Some r"
  shows "\<exists>a\<in>set result. is_Unassign a \<and> ip (server a) = ip srv"
  using assms
proof (induction servers arbitrary: i actions)
  case Nil
  then show ?case by simp
next
  case (Cons s rest)
  from Cons.prems(1) obtain actions' where
    step: "decideServer sh (clock i) recs n actions s = Some actions'"
    and rest: "determineActions sh clock recs n (Suc i) actions' rest = Some result"
    by (auto split: option.splits)
  from decideServer_tracked [OF step] obtain h where h: "map_of sh (ip s) = Some h" ..
  from determineActions_sound [OF rest] have sub: "set actions' \<subseteq> set result" by auto
  show ?case
  proof (cases "srv = s")
    case True
    from Cons.prems(3) True h have na: "shouldAssignIP sh s \<noteq> Some True"
      by (auto simp: demotion_def shouldAssignIP_def)
    have "\<exists>a\<in>set actions'. is_Unassign a \<and> ip (server a) = ip srv"
    proof (cases "List.find (\<lambda>a. is_Unassign a \<and> ip (server a) = ip s) actions")
      case None
      with step na Cons.prems(3,4) True show ?thesis
        unfolding decideServer_eq [OF h] by (auto split: if_splits)
    next
      case (Some a)
      then have "a \<in> set actions \<and> is_Unassign a \<and> ip (server a) = ip s"
        by (auto simp: find_Some_iff)
      moreover from step have "set actions \<subseteq> set actions'"
        unfolding decideServer_eq [OF h] by auto
      ultimately show ?thesis using True by blast
    qed
    with sub show ?thesis by blast
  next
    case False
    with Cons.prems(2) have "srv \<in> set rest" by simp
    from Cons.IH [OF rest this Cons.prems(3,4)] show ?thesis .
  qed
qed

lemma findRecord_Some:
  "findRecord recs k = Some r \<Longrightarrow> r \<in> set recs \<and> content r = k"
  by (auto simp: findRecord_def find_Some_iff)

lemma findRecord_published:
  "k \<in> content ` set recs \<Longrightarrow> \<exists>r. findRecord recs k = Some r"
  by (cases "findRecord recs k") (auto simp: findRecord_def find_None_iff)

lemma planActions_SomeD:
  assumes "planActions lc clock servers sh recs = Some (sh', batch)"
  shows "updateAssignment (content ` set recs) servers sh = Some sh'"
    and "\<exists>actions.
           determineActions sh' clock recs (card (content ` set recs)) 0 []
             (Array_sort (\<lambda>a b. lc (name a) (name b)) servers) = Some actions
           \<and> batch = Array_sort compareActions actions"
  using assms by (auto simp: planActions_def Let_def split: option.splits)

lemma planActions_Some:
  assumes "\<forall>s\<in>set servers. map_of sh (ip s) \<noteq> None"
  shows "\<exists>sh' batch. planActions lc clock servers sh recs = Some (sh', batch)"
proof -
  from updateAssignment_Some [OF assms] obtain sh' where
    u: "updateAssignment (content ` set recs) servers sh = Some sh'" by blast
  have "\<forall>s\<in>set (Array_sort (\<lambda>a b. lc (name a) (name b)) servers). map_of sh' (ip s) \<noteq> None"
    using assms by (auto simp: set_Array_sort updateAssignment_map_of [OF u])
  from determineActions_Some [OF this] obtain actions where
    "determineActions sh' clock recs (card (content ` set recs)) 0 []
       (Array_sort (\<lambda>a b. lc (name a) (name b)) servers) = Some actions" by blast
  with u show ?thesis by (simp add: planActions_def)
qed

lemma is_Unassign_iff: "is_Unassign a = (\<not> is_Assign a)"
  by (cases a) auto

lemma planActions_sorted:
  assumes "planActions lc clock servers sh recs = Some (sh', batch)"
  shows "\<exists>as us. batch = as @ us \<and> (\<forall>a\<in>set as. is_Assign a) \<and> (\<forall>a\<in>set us. is_Unassign a)"
proof -
  from planActions_SomeD(2) [OF assms] obtain actions where
    "batch = Array_sort compareActions actions" by blast
  then have "batch = filter is_Assign actions @ filter is_Unassign actions"
    by (simp add: Array_sort_compareActions)
  moreover have "\<forall>a\<in>set (filter is_Assign actions). is_Assign a" by simp
  moreover have "\<forall>a\<in>set (filter is_Unassign actions). is_Unassign a" by simp
  ultimately show ?thesis by blast
qed


lemma updateAssignment_count:
  assumes "updateAssignment ips servers sh = Some sh'"
  shows "(healthyNonPrimaryCount sh' > 0) = (healthyNonPrimaryCount sh > 0)"
proof -
  have "(\<exists>k h. map_of sh' k = Some h \<and> isHealthy h \<and> \<not> isPrimary h) =
        (\<exists>k h. map_of sh k = Some h \<and> isHealthy h \<and> \<not> isPrimary h)"
    unfolding updateAssignment_map_of [OF assms]
    by (auto simp: map_option_case split: option.splits if_splits)
  then show ?thesis by (simp only: healthyNonPrimaryCount_pos)
qed

lemma planActions_justified:
  assumes "planActions lc clock servers sh recs = Some (sh', batch)" and "a \<in> set batch"
  shows "justified sh' recs (card (content ` set recs)) clock 0
           (Array_sort (\<lambda>a b. lc (name a) (name b)) servers) a"
proof -
  from planActions_SomeD(2) [OF assms(1)] obtain actions where
    d: "determineActions sh' clock recs (card (content ` set recs)) 0 []
             (Array_sort (\<lambda>a b. lc (name a) (name b)) servers) = Some actions"
    and b: "batch = Array_sort compareActions actions" by blast
  from determineActions_sound [OF d] assms(2) b show ?thesis
    by (auto simp: set_Array_sort)
qed

lemma planActions_assign:
  assumes "planActions lc clock servers sh recs = Some (sh', batch)"
    and "srv \<in> set servers" and "shouldAssignIP sh' srv = Some True"
  shows "Assign srv \<in> set batch"
proof -
  from planActions_SomeD(2) [OF assms(1)] obtain actions where
    d: "determineActions sh' clock recs (card (content ` set recs)) 0 []
             (Array_sort (\<lambda>a b. lc (name a) (name b)) servers) = Some actions"
    and b: "batch = Array_sort compareActions actions" by blast
  from assms(2) have "srv \<in> set (Array_sort (\<lambda>a b. lc (name a) (name b)) servers)"
    by (simp add: set_Array_sort)
  from determineActions_assign [OF d this assms(3)] b show ?thesis
    by (simp add: set_Array_sort)
qed

lemma planActions_demote:
  assumes "planActions lc clock servers sh recs = Some (sh', batch)"
    and "srv \<in> set servers" and "demotion sh' srv"
    and "findRecord recs (ip srv) = Some r"
  shows "\<exists>a\<in>set batch. is_Unassign a \<and> ip (server a) = ip srv"
proof -
  from planActions_SomeD(2) [OF assms(1)] obtain actions where
    d: "determineActions sh' clock recs (card (content ` set recs)) 0 []
             (Array_sort (\<lambda>a b. lc (name a) (name b)) servers) = Some actions"
    and b: "batch = Array_sort compareActions actions" by blast
  from assms(2) have "srv \<in> set (Array_sort (\<lambda>a b. lc (name a) (name b)) servers)"
    by (simp add: set_Array_sort)
  from determineActions_demote [OF d this assms(3,4)] b show ?thesis
    by (simp add: set_Array_sort)
qed

text \<open>An unassign action is for a server that is unhealthy or demoted.\<close>

lemma justified_Unassign:
  assumes "justified sh recs n clock i servers a" and "is_Unassign a"
  shows "\<exists>r h. findRecord recs (ip (server a)) = Some r \<and> recordId a = id' r
           \<and> map_of sh (ip (server a)) = Some h \<and> isAssigned h
           \<and> (\<not> isHealthy h \<or> isPrimary h \<and> healthyNonPrimaryCount sh > 0)"
proof (cases a)
  case (Assign srv)
  with assms(2) show ?thesis by simp
next
  case (Unassign srv rid)
  with assms(1) obtain r where r: "findRecord recs (ip srv) = Some r" "rid = id' r"
    and d: "(\<exists>j < length servers. servers ! j = srv \<and>
                shouldUnassignIP sh (clock (i + j)) srv n = Some True) \<or> demotion sh srv"
    by (auto simp: justified_def)
  from d have "\<exists>h. map_of sh (ip srv) = Some h \<and> isAssigned h
           \<and> (\<not> isHealthy h \<or> isPrimary h \<and> healthyNonPrimaryCount sh > 0)"
    by (auto simp: shouldUnassignIP_def demotion_def split: option.splits if_splits)
  with r Unassign show ?thesis by simp
qed

subsection \<open>Executing a batch\<close>

lemma executeAction_failed:
  assumes "executeAction ok nid a (sh, zone, failed) = (sh', zone', failed')"
  shows "failed' = failed \<or> failed' = failed @ [a]"
  using assms
  by (auto simp: executeAction_def split: action.splits option.splits)

lemma executeAction_ok:
  assumes "executeAction ok nid a (sh, zone, failed) = (sh', zone', failed)"
  shows "zone' = (case a of Assign srv \<Rightarrow> zone @ [\<lparr>id' = nid, content = ip srv\<rparr>]
                   | Unassign srv rid \<Rightarrow> filter (\<lambda>r. id' r \<noteq> rid) zone)"
  using assms
  by (auto simp: executeAction_def createRecord_def deleteRecord_def
           split: action.splits option.splits if_splits)

lemma executeAction_keeps:
  assumes "executeAction ok nid a (sh, zone, failed) = (sh', zone', failed')"
    and "r \<in> set zone" and "is_Unassign a \<longrightarrow> recordId a \<noteq> id' r"
  shows "r \<in> set zone'"
  using assms
  by (auto simp: executeAction_def createRecord_def deleteRecord_def
           split: action.splits option.splits if_splits)

lemma executeActions_failed:
  assumes "executeActions ok nid i batch (sh, zone, failed) = (sh', zone', failed')"
  shows "length failed \<le> length failed'"
  using assms
proof (induction batch arbitrary: i sh zone failed)
  case Nil
  then show ?case by simp
next
  case (Cons a rest)
  obtain sh1 zone1 failed1 where
    s: "executeAction (ok i) (nid i) a (sh, zone, failed) = (sh1, zone1, failed1)"
    by (metis prod_cases3)
  with Cons.prems have "executeActions ok nid (Suc i) rest (sh1, zone1, failed1) = (sh', zone', failed')"
    by simp
  from Cons.IH [OF this] executeAction_failed [OF s] show ?case by auto
qed

lemma executeActions_keeps:
  assumes "executeActions ok nid i batch (sh, zone, failed) = (sh', zone', failed')"
    and "r \<in> set zone" and "\<forall>a\<in>set batch. is_Unassign a \<longrightarrow> recordId a \<noteq> id' r"
  shows "r \<in> set zone'"
  using assms
proof (induction batch arbitrary: i sh zone failed)
  case Nil
  then show ?case by simp
next
  case (Cons a rest)
  obtain sh1 zone1 failed1 where
    s: "executeAction (ok i) (nid i) a (sh, zone, failed) = (sh1, zone1, failed1)"
    by (metis prod_cases3)
  with Cons.prems have e: "executeActions ok nid (Suc i) rest (sh1, zone1, failed1) = (sh', zone', failed')"
    by simp
  from executeAction_keeps [OF s Cons.prems(2)] Cons.prems(3) have "r \<in> set zone1" by simp
  from Cons.IH [OF e this] Cons.prems(3) show ?case by simp
qed

lemma executeActions_created:
  assumes "executeActions ok nid i batch (sh, zone, failed) = (sh', zone', failed)"
    and "Assign srv \<in> set batch"
    and "\<forall>a\<in>set batch. is_Unassign a \<longrightarrow> (\<forall>j. recordId a \<noteq> nid j)"
  shows "\<exists>r\<in>set zone'. content r = ip srv"
  using assms
proof (induction batch arbitrary: i sh zone)
  case Nil
  then show ?case by simp
next
  case (Cons a rest)
  obtain sh1 zone1 failed1 where
    s: "executeAction (ok i) (nid i) a (sh, zone, failed) = (sh1, zone1, failed1)"
    by (metis prod_cases3)
  with Cons.prems have e: "executeActions ok nid (Suc i) rest (sh1, zone1, failed1) = (sh', zone', failed)"
    by simp
  from executeActions_failed [OF e] executeAction_failed [OF s] have f: "failed1 = failed"
    by auto
  show ?case
  proof (cases "a = Assign srv")
    case True
    with executeAction_ok [OF s [unfolded f]]
    have "\<lparr>id' = nid i, content = ip srv\<rparr> \<in> set zone1" by simp
    from executeActions_keeps [OF e this] Cons.prems(3)
    have "\<lparr>id' = nid i, content = ip srv\<rparr> \<in> set zone'" by simp
    then show ?thesis by force
  next
    case False
    with Cons.prems(2) have "Assign srv \<in> set rest" by simp
    from Cons.IH [OF e [unfolded f] this] Cons.prems(3) show ?thesis by simp
  qed
qed

lemma manageDNSRecords_fetched:
  assumes "manageDNSRecords lc clock True ok nid servers (sh, zone) = Some (sh', zone', failed)"
  shows "\<exists>sh1 batch. planActions lc clock servers sh zone = Some (sh1, batch)
           \<and> executeActions ok nid 0 batch (sh1, zone, []) = (sh', zone', failed)"
  using assms by (auto simp: manageDNSRecords_def split: option.splits)

subsection \<open>The zone and the health map after a batch\<close>

lemma executeAction_origin:
  assumes "executeAction ok nid a (sh, zone, failed) = (sh', zone', failed')"
    and "r \<in> set zone'"
  shows "r \<in> set zone \<or> (\<exists>srv. a = Assign srv \<and> r = \<lparr>id' = nid, content = ip srv\<rparr>)"
  using assms
  by (auto simp: executeAction_def createRecord_def deleteRecord_def
           split: action.splits option.splits if_splits)

lemma executeActions_origin:
  assumes "executeActions ok nid i batch (sh, zone, failed) = (sh', zone', failed')"
    and "r \<in> set zone'"
  shows "r \<in> set zone \<or> (\<exists>srv j. Assign srv \<in> set batch \<and> content r = ip srv \<and> id' r = nid j)"
  using assms
proof (induction batch arbitrary: i sh zone failed)
  case Nil
  then show ?case by simp
next
  case (Cons a rest)
  obtain sh1 zone1 failed1 where
    s: "executeAction (ok i) (nid i) a (sh, zone, failed) = (sh1, zone1, failed1)"
    by (metis prod_cases3)
  with Cons.prems have e: "executeActions ok nid (Suc i) rest (sh1, zone1, failed1) = (sh', zone', failed')"
    by simp
  from Cons.IH [OF e Cons.prems(2)]
  consider "r \<in> set zone1"
    | "\<exists>srv j. Assign srv \<in> set rest \<and> content r = ip srv \<and> id' r = nid j" by blast
  then show ?case
  proof cases
    case 1
    from executeAction_origin [OF s 1] show ?thesis by force
  next
    case 2
    then show ?thesis by auto
  qed
qed

lemma executeActions_deleted:
  assumes "executeActions ok nid i batch (sh, zone, failed) = (sh', zone', failed)"
    and "Unassign srv rid \<in> set batch"
    and "\<forall>j. nid j \<noteq> rid"
  shows "rid \<notin> id' ` set zone'"
  using assms
proof (induction batch arbitrary: i sh zone)
  case Nil
  then show ?case by simp
next
  case (Cons a rest)
  obtain sh1 zone1 failed1 where
    s: "executeAction (ok i) (nid i) a (sh, zone, failed) = (sh1, zone1, failed1)"
    by (metis prod_cases3)
  with Cons.prems have e: "executeActions ok nid (Suc i) rest (sh1, zone1, failed1) = (sh', zone', failed)"
    by simp
  from executeActions_failed [OF e] executeAction_failed [OF s] have f: "failed1 = failed"
    by auto
  show ?case
  proof (cases "a = Unassign srv rid")
    case True
    with executeAction_ok [OF s [unfolded f]] have gone: "rid \<notin> id' ` set zone1" by auto
    show ?thesis
    proof
      assume "rid \<in> id' ` set zone'"
      then obtain r where r: "r \<in> set zone'" "id' r = rid" by auto
      from executeActions_origin [OF e r(1)] gone r(2) Cons.prems(3) show False by auto
    qed
  next
    case False
    with Cons.prems(2) have "Unassign srv rid \<in> set rest" by simp
    from Cons.IH [OF e [unfolded f] this Cons.prems(3)] show ?thesis .
  qed
qed

text \<open>Applying a batch changes nothing of a health object but \<^verbatim>\<open>isAssigned\<close>.\<close>

lemma executeAction_health:
  assumes "executeAction ok nid a (sh, zone, failed) = (sh', zone', failed')"
  shows "map_option (\<lambda>h. h\<lparr>isAssigned := False\<rparr>) (map_of sh' k) =
         map_option (\<lambda>h. h\<lparr>isAssigned := False\<rparr>) (map_of sh k)"
  using assms
  by (auto simp: executeAction_def AList.update_conv'
           split: action.splits option.splits if_splits)

lemma executeActions_health:
  assumes "executeActions ok nid i batch (sh, zone, failed) = (sh', zone', failed')"
  shows "map_option (\<lambda>h. h\<lparr>isAssigned := False\<rparr>) (map_of sh' k) =
         map_option (\<lambda>h. h\<lparr>isAssigned := False\<rparr>) (map_of sh k)"
  using assms
proof (induction batch arbitrary: i sh zone failed)
  case Nil
  then show ?case by simp
next
  case (Cons a rest)
  obtain sh1 zone1 failed1 where
    s: "executeAction (ok i) (nid i) a (sh, zone, failed) = (sh1, zone1, failed1)"
    by (metis prod_cases3)
  with Cons.prems have e: "executeActions ok nid (Suc i) rest (sh1, zone1, failed1) = (sh', zone', failed')"
    by simp
  from Cons.IH [OF e] executeAction_health [OF s, of k] show ?case by simp
qed

lemma same_health_count:
  assumes "\<And>k. map_option (\<lambda>h. h\<lparr>isAssigned := False\<rparr>) (map_of sh' k) =
                map_option (\<lambda>h. h\<lparr>isAssigned := False\<rparr>) (map_of sh k)"
  shows "(healthyNonPrimaryCount sh' > 0) = (healthyNonPrimaryCount sh > 0)"
proof -
  have "\<exists>k h. map_of b k = Some h \<and> isHealthy h \<and> \<not> isPrimary h"
    if eq: "\<And>k. map_option (\<lambda>h. h\<lparr>isAssigned := False\<rparr>) (map_of a k) =
                 map_option (\<lambda>h. h\<lparr>isAssigned := False\<rparr>) (map_of b k)"
      and ex: "\<exists>k h. map_of a k = Some h \<and> isHealthy h \<and> \<not> isPrimary h"
    for a b :: serverHealth
  proof -
    from ex obtain k h where kh: "map_of a k = Some h" "isHealthy h" "\<not> isPrimary h" by blast
    with eq [of k] obtain h' where h': "map_of b k = Some h'"
      "h'\<lparr>isAssigned := False\<rparr> = h\<lparr>isAssigned := False\<rparr>"
      by (cases "map_of b k") auto
    from h'(2) have "isHealthy h' = isHealthy h" "isPrimary h' = isPrimary h"
      by (metis health.select_convs healthResult.select_convs health.surjective health.update_convs)+
    with kh h'(1) show ?thesis by blast
  qed
  from this [of sh' sh] this [of sh sh'] assms show ?thesis
    unfolding healthyNonPrimaryCount_pos by metis
qed

lemma updateAssignment_tracked:
  assumes "updateAssignment ips servers sh = Some sh'" and "s \<in> set servers"
  shows "\<exists>h. map_of sh (ip s) = Some h"
  using assms
proof (induction servers arbitrary: sh)
  case Nil
  then show ?case by simp
next
  case (Cons x rest)
  from Cons.prems(1) obtain hx where hx: "map_of sh (ip x) = Some hx"
    and rest: "updateAssignment ips rest (AList.update (ip x) (hx\<lparr>isAssigned := ip x \<in> ips\<rparr>) sh) = Some sh'"
    by (auto split: option.splits)
  show ?case
  proof (cases "ip s = ip x")
    case True
    with hx show ?thesis by simp
  next
    case False
    with Cons.prems(2) have "s \<in> set rest" by auto
    from Cons.IH [OF rest this] False show ?thesis by (simp add: AList.update_conv')
  qed
qed

lemma planActions_health:
  assumes "planActions lc clock servers sh zone = Some (sh', batch)" and "s \<in> set servers"
  shows "\<exists>h. map_of sh (ip s) = Some h
           \<and> map_of sh' (ip s) = Some (h\<lparr>isAssigned := ip s \<in> content ` set zone\<rparr>)"
proof -
  note sync = planActions_SomeD(1) [OF assms(1)]
  from updateAssignment_tracked [OF sync assms(2)] obtain h where "map_of sh (ip s) = Some h" ..
  then show ?thesis using assms(2) by (simp add: updateAssignment_map_of [OF sync])
qed

text \<open>
  A healthy server that is not primary, or is the fallback, is published after a batch
  without failures.
\<close>

lemma keeper_published:
  assumes plan: "planActions lc clock servers sh zone = Some (sh1, batch)"
    and exec: "executeActions ok nid 0 batch (sh1, zone, []) = (sh', zone', [])"
    and ids: "distinct (map id' zone)"
    and fresh: "\<forall>i. nid i \<notin> id' ` set zone"
    and s: "s \<in> set servers" and h: "map_of sh (ip s) = Some h"
    and hh: "isHealthy h" and keep: "\<not> isPrimary h \<or> \<not> healthyNonPrimaryCount sh > 0"
  shows "ip s \<in> content ` set zone'"
proof -
  note sync = planActions_SomeD(1) [OF plan]
  note cnt = updateAssignment_count [OF sync]
  let ?h1 = "h\<lparr>isAssigned := ip s \<in> content ` set zone\<rparr>"
  have h1: "map_of sh1 (ip s) = Some ?h1"
    using s h by (simp add: updateAssignment_map_of [OF sync])
  have other: "\<exists>r\<in>set zone. recordId a = id' r \<and> content r \<noteq> ip s"
    if a: "a \<in> set batch" "is_Unassign a" for a
  proof -
    from justified_Unassign [OF planActions_justified [OF plan a(1)] a(2)]
    obtain r ha where r: "findRecord zone (ip (server a)) = Some r" "recordId a = id' r"
      and ha: "map_of sh1 (ip (server a)) = Some ha"
        "\<not> isHealthy ha \<or> isPrimary ha \<and> healthyNonPrimaryCount sh1 > 0"
      by blast
    have "ip (server a) \<noteq> ip s"
    proof
      assume "ip (server a) = ip s"
      with ha(1) h1 have "ha = ?h1" by simp
      with ha(2) hh keep cnt show False by auto
    qed
    with findRecord_Some [OF r(1)] r(2) show ?thesis by auto
  qed
  show ?thesis
  proof (cases "ip s \<in> content ` set zone")
    case True
    then obtain r0 where r0: "r0 \<in> set zone" "content r0 = ip s" by auto
    have "\<forall>a\<in>set batch. is_Unassign a \<longrightarrow> recordId a \<noteq> id' r0"
    proof (intro ballI impI)
      fix a assume "a \<in> set batch" "is_Unassign a"
      from other [OF this] obtain r where r: "r \<in> set zone" "recordId a = id' r" "content r \<noteq> ip s"
        by blast
      with r0 have "r \<noteq> r0" by auto
      with ids r(1) r0(1) have "id' r \<noteq> id' r0"
        by (auto simp: distinct_map inj_on_def)
      with r(2) show "recordId a \<noteq> id' r0" by simp
    qed
    from executeActions_keeps [OF exec r0(1) this] r0(2) show ?thesis by force
  next
    case False
    with h1 hh keep cnt have "shouldAssignIP sh1 s = Some True"
      by (auto simp: shouldAssignIP_def)
    from planActions_assign [OF plan s this] have as: "Assign s \<in> set batch" .
    have "\<forall>a\<in>set batch. is_Unassign a \<longrightarrow> (\<forall>j. recordId a \<noteq> nid j)"
    proof (intro ballI impI allI)
      fix a j assume "a \<in> set batch" "is_Unassign a"
      from other [OF this] obtain r where "r \<in> set zone" "recordId a = id' r" by blast
      with fresh show "recordId a \<noteq> nid j" by (metis imageI)
    qed
    from executeActions_created [OF exec as this] show ?thesis by force
  qed
qed

text \<open>An address for which the batch holds an unassign action is gone after the batch.\<close>

lemma unassigned_unpublished:
  assumes plan: "planActions lc clock servers sh zone = Some (sh1, batch)"
    and exec: "executeActions ok nid 0 batch (sh1, zone, []) = (sh', zone', [])"
    and contents: "distinct (map content zone)"
    and fresh: "\<forall>i. nid i \<notin> id' ` set zone"
    and a: "a \<in> set batch" "is_Unassign a"
  shows "ip (server a) \<notin> content ` set zone'"
proof
  assume "ip (server a) \<in> content ` set zone'"
  then obtain r where r: "r \<in> set zone'" "content r = ip (server a)" by auto
  from justified_Unassign [OF planActions_justified [OF plan a(1)] a(2)]
  obtain r' ha where r': "findRecord zone (ip (server a)) = Some r'" "recordId a = id' r'"
    and ha: "map_of sh1 (ip (server a)) = Some ha" "isAssigned ha"
    by blast
  from findRecord_Some [OF r'(1)] have r'z: "r' \<in> set zone" "content r' = ip (server a)" by auto
  from a(2) r'(2) obtain srv where au: "a = Unassign srv (id' r')"
    by (cases a) auto
  have "\<forall>j. nid j \<noteq> id' r'" using fresh r'z(1) by (metis imageI)
  from executeActions_deleted [OF exec a(1) [unfolded au] this]
  have gone: "id' r' \<notin> id' ` set zone'" .
  from executeActions_origin [OF exec r(1)]
  show False
  proof
    assume "r \<in> set zone"
    with r(2) r'z contents have "r = r'"
      by (auto simp: distinct_map inj_on_def)
    with r(1) gone show False by auto
  next
    assume "\<exists>srv j. Assign srv \<in> set batch \<and> content r = ip srv \<and> id' r = nid j"
    then obtain srv' where s': "Assign srv' \<in> set batch" "content r = ip srv'" by blast
    from planActions_justified [OF plan s'(1)] have "shouldAssignIP sh1 srv' = Some True"
      by (simp add: justified_def)
    with s'(2) r(2) ha show False
      by (auto simp: shouldAssignIP_def split: option.splits if_splits)
  qed
qed

lemma planActions_unassign:
  assumes "planActions lc clock servers sh recs = Some (sh', batch)"
    and "j < length servers"
    and "Array_sort (\<lambda>a b. lc (name a) (name b)) servers ! j = srv"
    and "shouldUnassignIP sh' (clock j) srv (card (content ` set recs)) = Some True"
    and "findRecord recs (ip srv) = Some r"
  shows "Unassign srv (id' r) \<in> set batch"
proof -
  from planActions_SomeD(2) [OF assms(1)] obtain actions where
    d: "determineActions sh' clock recs (card (content ` set recs)) 0 []
             (Array_sort (\<lambda>a b. lc (name a) (name b)) servers) = Some actions"
    and b: "batch = Array_sort compareActions actions" by blast
  have j: "j < length (Array_sort (\<lambda>a b. lc (name a) (name b)) servers)"
    using assms(2) by (simp add: length_Array_sort)
  from determineActions_unassign [OF d j assms(3) _ assms(5)] assms(4) b show ?thesis
    by (simp add: set_Array_sort)
qed

lemma same_health_update:
  assumes "h1\<lparr>isAssigned := False\<rparr> = h\<lparr>isAssigned := False\<rparr>"
  shows "h1\<lparr>isAssigned := b\<rparr> = h\<lparr>isAssigned := b\<rparr>"
proof -
  have "(h1\<lparr>isAssigned := False\<rparr>)\<lparr>isAssigned := b\<rparr> = (h\<lparr>isAssigned := False\<rparr>)\<lparr>isAssigned := b\<rparr>"
    using assms by simp
  then show ?thesis by simp
qed

section \<open>Minimum floor\<close>

text \<open>
  C1. A cycle that fetched the ground truth runs to its end, and if at least one
  configured server is healthy and no action of the batch failed, the provider's zone
  holds at least one record at the end. The health map tracks exactly the configured
  addresses (as the initialisation makes it), and the provider's ids are unique: the
  ids in the zone are distinct and a created record gets an id that is not in the zone.
\<close>

theorem published_set_nonempty:
  assumes keys: "dom (map_of sh) = ip ` set servers"
    and healthy: "\<exists>s\<in>set servers. \<exists>h. map_of sh (ip s) = Some h \<and> isHealthy h"
    and ids: "distinct (map id' zone)"
    and fresh: "\<forall>i. newId i \<notin> id' ` set zone"
  shows "\<exists>sh' zone' failed.
           manageDNSRecords localeCompare clock True accepted newId servers (sh, zone) =
             Some (sh', zone', failed)
           \<and> (failed = [] \<longrightarrow> zone' \<noteq> [])"
proof -
  have "\<forall>s\<in>set servers. map_of sh (ip s) \<noteq> None"
    using keys by (metis domIff imageI)
  from planActions_Some [OF this] obtain sh1 batch where
    plan: "planActions localeCompare clock servers sh zone = Some (sh1, batch)"
    by blast
  obtain sh' zone' failed where
    exec: "executeActions accepted newId 0 batch (sh1, zone, []) = (sh', zone', failed)"
    by (metis prod_cases3)
  from plan exec have run:
    "manageDNSRecords localeCompare clock True accepted newId servers (sh, zone) =
       Some (sh', zone', failed)"
    by (simp add: manageDNSRecords_def)
  \<comment> \<open>a healthy server that the planner wants published\<close>
  have "\<exists>s\<in>set servers. \<exists>h. map_of sh (ip s) = Some h \<and> isHealthy h
          \<and> (\<not> isPrimary h \<or> \<not> healthyNonPrimaryCount sh > 0)"
  proof (cases "healthyNonPrimaryCount sh > 0")
    case True
    then obtain k h where kh: "map_of sh k = Some h" "isHealthy h" "\<not> isPrimary h"
      by (auto simp: healthyNonPrimaryCount_pos)
    then have "k \<in> dom (map_of sh)" by blast
    with keys obtain s where "s \<in> set servers" "ip s = k" by auto
    with kh show ?thesis by blast
  next
    case False
    with healthy show ?thesis by blast
  qed
  then obtain s h where s: "s \<in> set servers" and h: "map_of sh (ip s) = Some h"
    and hh: "isHealthy h" and keep: "\<not> isPrimary h \<or> \<not> healthyNonPrimaryCount sh > 0"
    by blast
  have "zone' \<noteq> []" if "failed = []"
    using keeper_published [OF plan exec [unfolded that] ids fresh s h hh keep] by auto
  with run show ?thesis by blast
qed

theorem published_set_nonempty_witness:
  "manageDNSRecords compareNames (clockAt 100000) True allAccepted freshIds
      [srvC, srvA, srvB] (scenario1, [recA, recC]) =
     Some ([(ip srvC, mkHealth False False (Some 55000)),
            (ip srvA, (mkHealth True False None)\<lparr>isAssigned := True\<rparr>),
            (ip srvB, (mkHealth True False None)\<lparr>isAssigned := True\<rparr>)],
           [recA, \<lparr>id' = freshIds 0, content = ip srvB\<rparr>], [])
   \<and> [recA, \<lparr>id' = freshIds 0, content = ip srvB\<rparr>] \<noteq> []"
proof -
  have 1: "dom (map_of scenario1) = ip ` set [srvC, srvA, srvB]"
    by (auto simp: ex_defs)
  have 2: "\<exists>s\<in>set [srvC, srvA, srvB]. \<exists>h. map_of scenario1 (ip s) = Some h \<and> isHealthy h"
    by (simp add: ex_defs)
  have 3: "distinct (map id' [recA, recC])"
    by (simp add: ex_defs)
  have 4: "\<forall>i. freshIds i \<notin> id' ` set [recA, recC]"
    by (simp add: ex_defs)
  from published_set_nonempty [OF 1 2 3 4, of compareNames "clockAt 100000" allAccepted]
    scenario1_run
  show ?thesis by simp
qed

section \<open>Action ordering\<close>

text \<open>
  C6. In the batch of a cycle no unassign action stands before an assign action: every
  assign action is issued before every unassign action.
\<close>

theorem assigns_before_unassigns:
  assumes "planActions lc clock servers sh recs = Some (sh', batch)"
    and "i < j" and "j < length batch"
  shows "\<not> (is_Unassign (batch ! i) \<and> is_Assign (batch ! j))"
proof
  assume bad: "is_Unassign (batch ! i) \<and> is_Assign (batch ! j)"
  from planActions_sorted [OF assms(1)] obtain as us where b: "batch = as @ us"
    and as: "\<forall>a\<in>set as. is_Assign a" and us: "\<forall>a\<in>set us. is_Unassign a" by blast
  have "j < length as"
  proof (rule ccontr)
    assume n: "\<not> j < length as"
    with assms(3) b have "j - length as < length us" by simp
    then have "us ! (j - length as) \<in> set us" by (rule nth_mem)
    moreover from n b have "batch ! j = us ! (j - length as)" by (simp add: nth_append)
    ultimately have "is_Unassign (batch ! j)" using us by simp
    with bad show False by (simp add: is_Unassign_iff)
  qed
  with assms(2) have i: "i < length as" by simp
  then have "as ! i \<in> set as" by (rule nth_mem)
  moreover from i b have "batch ! i = as ! i" by (simp add: nth_append)
  ultimately have "is_Assign (batch ! i)" using as by simp
  with bad show False by (simp add: is_Unassign_iff)
qed

theorem assigns_before_unassigns_witness:
  "planActions compareNames (clockAt 100000) [srvC, srvA, srvB] scenario1 [recA, recC] =
     Some ([(ip srvC, (mkHealth False False (Some 55000))\<lparr>isAssigned := True\<rparr>),
            (ip srvA, (mkHealth True False None)\<lparr>isAssigned := True\<rparr>),
            (ip srvB, mkHealth True False None)],
           [Assign srvB, Unassign srvC (id' recC)])
   \<and> (0::nat) < 1 \<and> 1 < length [Assign srvB, Unassign srvC (id' recC)]
   \<and> \<not> (is_Unassign ([Assign srvB, Unassign srvC (id' recC)] ! 0)
          \<and> is_Assign ([Assign srvB, Unassign srvC (id' recC)] ! 1))"
  using assigns_before_unassigns [OF scenario1_plan, of 0 1] scenario1_plan
  by simp

section \<open>Primary demotion\<close>

text \<open>
  C5. For a published server that is healthy and primary-flagged, the batch contains an
  unassign action for its address iff another configured server is healthy and not
  primary-flagged. Neither the clock nor a timestamp enters: the removal waits for no
  grace period.
\<close>

theorem primary_demotion:
  assumes plan: "planActions localeCompare clock servers sh currentRecords = Some (sh', batch)"
    and keys: "dom (map_of sh) = ip ` set servers"
    and s: "s \<in> set servers" and h: "map_of sh (ip s) = Some h"
    and assigned: "ip s \<in> content ` set currentRecords"
    and hp: "isHealthy h" "isPrimary h"
  shows "(\<exists>a\<in>set batch. is_Unassign a \<and> ip (server a) = ip s) =
         (\<exists>s'\<in>set servers. \<exists>h'. ip s' \<noteq> ip s \<and> map_of sh (ip s') = Some h'
                \<and> isHealthy h' \<and> \<not> isPrimary h')"
proof -
  note sync = planActions_SomeD(1) [OF plan]
  note cnt = updateAssignment_count [OF sync]
  let ?h1 = "h\<lparr>isAssigned := True\<rparr>"
  have h1: "map_of sh' (ip s) = Some ?h1"
    using s h assigned by (simp add: updateAssignment_map_of [OF sync])
  have other: "(healthyNonPrimaryCount sh > 0) =
               (\<exists>s'\<in>set servers. \<exists>h'. ip s' \<noteq> ip s \<and> map_of sh (ip s') = Some h'
                  \<and> isHealthy h' \<and> \<not> isPrimary h')"
  proof
    assume "healthyNonPrimaryCount sh > 0"
    then obtain k h' where kh: "map_of sh k = Some h'" "isHealthy h'" "\<not> isPrimary h'"
      by (auto simp: healthyNonPrimaryCount_pos)
    then have "k \<in> dom (map_of sh)" by blast
    with keys obtain s' where s': "s' \<in> set servers" "ip s' = k" by auto
    with kh h hp(2) have "ip s' \<noteq> ip s" by auto
    with s' kh show "\<exists>s'\<in>set servers. \<exists>h'. ip s' \<noteq> ip s \<and> map_of sh (ip s') = Some h'
                  \<and> isHealthy h' \<and> \<not> isPrimary h'" by blast
  next
    assume "\<exists>s'\<in>set servers. \<exists>h'. ip s' \<noteq> ip s \<and> map_of sh (ip s') = Some h'
                  \<and> isHealthy h' \<and> \<not> isPrimary h'"
    then show "healthyNonPrimaryCount sh > 0"
      by (auto simp: healthyNonPrimaryCount_pos)
  qed
  have "(\<exists>a\<in>set batch. is_Unassign a \<and> ip (server a) = ip s) = (healthyNonPrimaryCount sh > 0)"
  proof
    assume "\<exists>a\<in>set batch. is_Unassign a \<and> ip (server a) = ip s"
    then obtain a where a: "a \<in> set batch" "is_Unassign a" "ip (server a) = ip s" by blast
    from justified_Unassign [OF planActions_justified [OF plan a(1)] a(2)]
    obtain ha where "map_of sh' (ip (server a)) = Some ha"
      "\<not> isHealthy ha \<or> isPrimary ha \<and> healthyNonPrimaryCount sh' > 0" by blast
    with a(3) h1 hp cnt show "healthyNonPrimaryCount sh > 0" by auto
  next
    assume "healthyNonPrimaryCount sh > 0"
    with cnt h1 hp have "demotion sh' s" by (auto simp: demotion_def)
    moreover from findRecord_published [OF assigned] obtain r where
      "findRecord currentRecords (ip s) = Some r" ..
    ultimately show "\<exists>a\<in>set batch. is_Unassign a \<and> ip (server a) = ip s"
      using planActions_demote [OF plan s] by blast
  qed
  with other show ?thesis by simp
qed

theorem primary_demotion_witness:
  "planActions compareNames (clockAt 100000) [srvA, srvB] primaryAndOther [recA] =
     Some ([(ip srvA, (mkHealth True True None)\<lparr>isAssigned := True\<rparr>),
            (ip srvB, mkHealth True False None)],
           [Assign srvB, Unassign srvA (id' recA)])
   \<and> dom (map_of primaryAndOther) = ip ` set [srvA, srvB]
   \<and> srvA \<in> set [srvA, srvB]
   \<and> map_of primaryAndOther (ip srvA) = Some (mkHealth True True None)
   \<and> ip srvA \<in> content ` set [recA]
   \<and> isHealthy (mkHealth True True None) \<and> isPrimary (mkHealth True True None)
   \<and> (\<exists>a\<in>set [Assign srvB, Unassign srvA (id' recA)]. is_Unassign a \<and> ip (server a) = ip srvA)
   \<and> (\<exists>s'\<in>set [srvA, srvB]. \<exists>h'. ip s' \<noteq> ip srvA \<and> map_of primaryAndOther (ip s') = Some h'
          \<and> isHealthy h' \<and> \<not> isPrimary h')"
proof -
  have 1: "dom (map_of primaryAndOther) = ip ` set [srvA, srvB]"
    by (auto simp: ex_defs)
  have 2: "srvA \<in> set [srvA, srvB]" by simp
  have 3: "map_of primaryAndOther (ip srvA) = Some (mkHealth True True None)"
    by (simp add: ex_defs)
  have 4: "ip srvA \<in> content ` set [recA]" by (simp add: ex_defs)
  have 5: "isHealthy (mkHealth True True None)" "isPrimary (mkHealth True True None)"
    by (simp_all add: ex_defs)
  have 6: "\<exists>a\<in>set [Assign srvB, Unassign srvA (id' recA)]. is_Unassign a \<and> ip (server a) = ip srvA"
    by simp
  from primary_demotion [OF primaryAndOther_plan 1 2 3 4 5] 6 primaryAndOther_plan 1 2 3 4 5
  show ?thesis by simp
qed

section \<open>All servers unhealthy\<close>




section \<open>Re-running the reconciliation\<close>

text \<open>
  C7, as the code has it. Take a cycle that fetched the ground truth and whose actions
  all took effect, at a provider that keeps ids unique and at most one record per
  address. Re-run the planner on the resulting zone with the health states unchanged
  and with clock readings that are on the same side of every server's grace deadline as
  in the first run. The re-run returns a batch, and this batch is empty except in one
  case: exactly one address was published before the first run, at least two are
  published after it, and the published address belongs to an unhealthy configured
  server whose grace period had elapsed at its turn (the server that the floor check
  kept). In that case the batch of the re-run is not empty.
\<close>

theorem rerun_plans_nothing:
  assumes ids: "distinct (map id' zone)" and contents: "distinct (map content zone)"
    and fresh: "\<forall>i. newId i \<notin> id' ` set zone"
    and run: "manageDNSRecords localeCompare clock True accepted newId servers (sh, zone) =
                Some (sh1, zone1, [])"
    and same_side:
      "\<forall>j<length servers. \<forall>h.
         map_of sh (ip (Array_sort (\<lambda>a b. localeCompare (name a) (name b)) servers ! j)) = Some h \<longrightarrow>
         (clock' j - toNumber (lastUnhealthyTime h) < 30000) =
         (clock j - toNumber (lastUnhealthyTime h) < 30000)"
  shows "\<exists>sh2 batch2.
           planActions localeCompare clock' servers sh1 zone1 = Some (sh2, batch2)
           \<and> (batch2 = []) =
               (\<not> (card (content ` set zone) = 1 \<and> 2 \<le> card (content ` set zone1)
                   \<and> (\<exists>j<length servers. \<exists>h.
                         map_of sh (ip (Array_sort (\<lambda>a b. localeCompare (name a) (name b))
                                          servers ! j)) = Some h
                         \<and> \<not> isHealthy h
                         \<and> ip (Array_sort (\<lambda>a b. localeCompare (name a) (name b)) servers ! j)
                             \<in> content ` set zone
                         \<and> 30000 \<le> clock j - toNumber (lastUnhealthyTime h))))"
proof -
  let ?sorted = "Array_sort (\<lambda>a b. localeCompare (name a) (name b)) servers"
  let ?kept = "card (content ` set zone) = 1 \<and> 2 \<le> card (content ` set zone1)
                 \<and> (\<exists>j<length servers. \<exists>h.
                       map_of sh (ip (?sorted ! j)) = Some h \<and> \<not> isHealthy h
                       \<and> ip (?sorted ! j) \<in> content ` set zone
                       \<and> 30000 \<le> clock j - toNumber (lastUnhealthyTime h))"
  from manageDNSRecords_fetched [OF run] obtain sh' batch where
    plan: "planActions localeCompare clock servers sh zone = Some (sh', batch)"
    and exec: "executeActions accepted newId 0 batch (sh', zone, []) = (sh1, zone1, [])"
    by blast
  note eh = executeActions_health [OF exec]
  have tracked: "\<forall>s\<in>set servers. map_of sh1 (ip s) \<noteq> None"
  proof
    fix s assume "s \<in> set servers"
    from planActions_health [OF plan this] obtain h' where "map_of sh' (ip s) = Some h'" by blast
    with eh [of "ip s"] show "map_of sh1 (ip s) \<noteq> None" by auto
  qed
  from planActions_Some [OF tracked] obtain sh2 batch2 where
    plan2: "planActions localeCompare clock' servers sh1 zone1 = Some (sh2, batch2)" by blast
  \<comment> \<open>the health objects of both runs\<close>
  have health: "\<exists>h. map_of sh (ip s) = Some h
                  \<and> map_of sh' (ip s) = Some (h\<lparr>isAssigned := ip s \<in> content ` set zone\<rparr>)
                  \<and> map_of sh2 (ip s) = Some (h\<lparr>isAssigned := ip s \<in> content ` set zone1\<rparr>)"
    if s: "s \<in> set servers" for s
  proof -
    from planActions_health [OF plan s] obtain h where h: "map_of sh (ip s) = Some h"
      "map_of sh' (ip s) = Some (h\<lparr>isAssigned := ip s \<in> content ` set zone\<rparr>)" by blast
    from planActions_health [OF plan2 s] obtain h1 where h1: "map_of sh1 (ip s) = Some h1"
      "map_of sh2 (ip s) = Some (h1\<lparr>isAssigned := ip s \<in> content ` set zone1\<rparr>)" by blast
    from eh [of "ip s"] h(2) h1(1) have "h1\<lparr>isAssigned := False\<rparr> = h\<lparr>isAssigned := False\<rparr>"
      by simp
    from same_health_update [OF this] h h1 show ?thesis by simp
  qed
  have c1: "(healthyNonPrimaryCount sh' > 0) = (healthyNonPrimaryCount sh > 0)"
    by (rule updateAssignment_count [OF planActions_SomeD(1) [OF plan]])
  have c2: "(healthyNonPrimaryCount sh2 > 0) = (healthyNonPrimaryCount sh > 0)"
    using updateAssignment_count [OF planActions_SomeD(1) [OF plan2]]
      same_health_count [of sh1 sh', OF eh] c1 by simp
  \<comment> \<open>a record of the second ground truth for an address that gets no assign action\<close>
  have old: "k \<in> content ` set zone"
    if "k \<in> content ` set zone1"
      and "\<And>srv. Assign srv \<in> set batch \<Longrightarrow> ip srv \<noteq> k" for k
  proof -
    from that(1) obtain r where r: "r \<in> set zone1" "content r = k" by auto
    from executeActions_origin [OF exec r(1)] that(2) r(2) show ?thesis by force
  qed
  \<comment> \<open>without a server that the floor kept, the second batch is empty\<close>
  have empty: "a \<notin> set batch2" if nk: "\<not> ?kept" for a
  proof
    assume a: "a \<in> set batch2"
    from planActions_justified [OF plan2 a]
    have j: "justified sh2 zone1 (card (content ` set zone1)) clock' 0 ?sorted a" .
    then have srv: "server a \<in> set servers" by (simp add: justified_def set_Array_sort)
    from health [OF srv] obtain h where h: "map_of sh (ip (server a)) = Some h"
      and h': "map_of sh' (ip (server a)) =
                 Some (h\<lparr>isAssigned := ip (server a) \<in> content ` set zone\<rparr>)"
      and h2: "map_of sh2 (ip (server a)) =
                 Some (h\<lparr>isAssigned := ip (server a) \<in> content ` set zone1\<rparr>)"
      by blast
    show False
    proof (cases a)
      case (Assign s)
      with j have "shouldAssignIP sh2 s = Some True" by (simp add: justified_def)
      with h2 Assign c2 have "isHealthy h" "ip s \<notin> content ` set zone1"
        "\<not> isPrimary h \<or> \<not> healthyNonPrimaryCount sh > 0"
        by (auto simp: shouldAssignIP_def split: if_splits)
      with keeper_published [OF plan exec ids fresh srv h] Assign show False by simp
    next
      case (Unassign s rid)
      with j obtain r where "findRecord zone1 (ip s) = Some r"
        and why: "(\<exists>j < length ?sorted. ?sorted ! j = s \<and>
                     shouldUnassignIP sh2 (clock' (0 + j)) s (card (content ` set zone1)) = Some True)
                  \<or> demotion sh2 s"
        by (auto simp: justified_def)
      with findRecord_Some have pub1: "ip s \<in> content ` set zone1" by force
      from why show False
      proof
        assume "demotion sh2 s"
        with h2 Unassign c2 have hp: "isHealthy h" "isPrimary h" "healthyNonPrimaryCount sh > 0"
          by (auto simp: demotion_def)
        have noassign: "ip srv \<noteq> ip s" if "Assign srv \<in> set batch" for srv
        proof
          assume eq: "ip srv = ip s"
          from planActions_justified [OF plan that] have "shouldAssignIP sh' srv = Some True"
            by (simp add: justified_def)
          with eq h' Unassign hp c1 show False
            by (auto simp: shouldAssignIP_def split: if_splits)
        qed
        from old [OF pub1 noassign] have pub0: "ip s \<in> content ` set zone" .
        with h' Unassign hp c1 have "demotion sh' s" by (auto simp: demotion_def)
        moreover from findRecord_published [OF pub0] obtain r0 where
          "findRecord zone (ip s) = Some r0" ..
        ultimately obtain a1 where "a1 \<in> set batch" "is_Unassign a1" "ip (server a1) = ip s"
          using planActions_demote [OF plan] srv Unassign by auto
        with unassigned_unpublished [OF plan exec contents fresh] pub1 show False by metis
      next
        assume "\<exists>j < length ?sorted. ?sorted ! j = s \<and>
                  shouldUnassignIP sh2 (clock' (0 + j)) s (card (content ` set zone1)) = Some True"
        then obtain j where jl: "j < length servers" and js: "?sorted ! j = s"
          and u: "shouldUnassignIP sh2 (clock' j) s (card (content ` set zone1)) = Some True"
          by (auto simp: length_Array_sort)
        from u h2 Unassign have down: "\<not> isHealthy h"
          and n1: "\<not> card (content ` set zone1) \<le> 1"
          and g': "\<not> clock' j - toNumber (lastUnhealthyTime h) < 30000"
          by (auto simp: shouldUnassignIP_def Let_def GRACE_PERIOD_MS_def split: if_splits)
        from same_side jl js h Unassign g'
        have g: "\<not> clock j - toNumber (lastUnhealthyTime h) < 30000" by auto
        have noassign: "ip srv \<noteq> ip s" if "Assign srv \<in> set batch" for srv
        proof
          assume eq: "ip srv = ip s"
          from planActions_justified [OF plan that] have "shouldAssignIP sh' srv = Some True"
            by (simp add: justified_def)
          with eq h' Unassign down show False
            by (auto simp: shouldAssignIP_def split: if_splits)
        qed
        from old [OF pub1 noassign] have pub0: "ip s \<in> content ` set zone" .
        then have pos: "card (content ` set zone) > 0" by (auto simp: card_gt_0_iff)
        have "\<exists>j<length servers. \<exists>h.
                 map_of sh (ip (?sorted ! j)) = Some h \<and> \<not> isHealthy h
                 \<and> ip (?sorted ! j) \<in> content ` set zone
                 \<and> 30000 \<le> clock j - toNumber (lastUnhealthyTime h)"
          using jl js h Unassign down pub0 g by (intro exI [of _ j] exI [of _ h]) simp
        with nk n1 pos have n0: "\<not> card (content ` set zone) \<le> 1" by auto
        from h' Unassign pub0 down n0 g
        have "shouldUnassignIP sh' (clock j) s (card (content ` set zone)) = Some True"
          by (auto simp: shouldUnassignIP_def Let_def GRACE_PERIOD_MS_def)
        moreover from findRecord_published [OF pub0] obtain r0 where
          "findRecord zone (ip s) = Some r0" ..
        ultimately have "Unassign s (id' r0) \<in> set batch"
          using planActions_unassign [OF plan jl js] by blast
        from unassigned_unpublished [OF plan exec contents fresh this] pub1 show False by simp
      qed
    qed
  qed
  \<comment> \<open>a server that the floor kept is removed by the second batch\<close>
  have removed: "batch2 \<noteq> []" if k: "?kept"
  proof -
    from k obtain j h where one: "card (content ` set zone) = 1"
      and n1: "2 \<le> card (content ` set zone1)"
      and jl: "j < length servers" and h: "map_of sh (ip (?sorted ! j)) = Some h"
      and down: "\<not> isHealthy h" and pub0: "ip (?sorted ! j) \<in> content ` set zone"
      and g: "30000 \<le> clock j - toNumber (lastUnhealthyTime h)"
      by blast
    let ?s = "?sorted ! j"
    have "?s \<in> set ?sorted" using jl by (simp add: length_Array_sort)
    then have srv: "?s \<in> set servers" by (simp add: set_Array_sort)
    from health [OF srv] h have
      h2: "map_of sh2 (ip ?s) = Some (h\<lparr>isAssigned := ip ?s \<in> content ` set zone1\<rparr>)"
      by auto
    from pub0 obtain r0 where r0: "r0 \<in> set zone" "content r0 = ip ?s" by auto
    \<comment> \<open>the first batch holds no unassign action\<close>
    have "\<not> is_Unassign a" if a: "a \<in> set batch" for a
    proof
      assume u: "is_Unassign a"
      from planActions_justified [OF plan a]
      have ja: "justified sh' zone (card (content ` set zone)) clock 0 ?sorted a" .
      then have sa: "server a \<in> set servers" by (simp add: justified_def set_Array_sort)
      from u obtain srv' rid where au: "a = Unassign srv' rid" by (cases a) auto
      from ja au one have d: "demotion sh' srv'"
        by (auto simp: justified_def shouldUnassignIP_def split: option.splits if_splits)
      from health [OF sa] au obtain ha where ha: "map_of sh (ip srv') = Some ha"
        "map_of sh' (ip srv') = Some (ha\<lparr>isAssigned := ip srv' \<in> content ` set zone\<rparr>)"
        by auto
      from d ha have "isHealthy ha" "ip srv' \<in> content ` set zone"
        by (auto simp: demotion_def)
      moreover from one obtain x where "content ` set zone = {x}"
        by (rule card_1_singletonE)
      ultimately have "ip srv' = ip ?s" using pub0 by auto
      with ha(1) h \<open>isHealthy ha\<close> down show False by simp
    qed
    then have "\<forall>a\<in>set batch. is_Unassign a \<longrightarrow> recordId a \<noteq> id' r0" by blast
    from executeActions_keeps [OF exec r0(1) this] r0(2)
    have pub1: "ip ?s \<in> content ` set zone1" by force
    from same_side jl h g
    have g': "\<not> clock' j - toNumber (lastUnhealthyTime h) < 30000" by auto
    from h2 pub1 down n1 g'
    have "shouldUnassignIP sh2 (clock' j) ?s (card (content ` set zone1)) = Some True"
      by (auto simp: shouldUnassignIP_def Let_def GRACE_PERIOD_MS_def)
    moreover from findRecord_published [OF pub1] obtain r1 where
      "findRecord zone1 (ip ?s) = Some r1" ..
    ultimately have "Unassign ?s (id' r1) \<in> set batch2"
      using planActions_unassign [OF plan2 jl] by blast
    then show ?thesis by auto
  qed
  have "(batch2 = []) = (\<not> ?kept)"
  proof
    assume "batch2 = []"
    with removed show "\<not> ?kept" by blast
  next
    assume "\<not> ?kept"
    from empty [OF this] show "batch2 = []" by (cases batch2) auto
  qed
  with plan2 show ?thesis by blast
qed

theorem rerun_plans_nothing_witness:
  "manageDNSRecords compareNames (clockAt 100000) True allAccepted freshIds
      [srvC, srvA, srvB] (scenario1, [recA, recC]) =
     Some ([(ip srvC, mkHealth False False (Some 55000)),
            (ip srvA, (mkHealth True False None)\<lparr>isAssigned := True\<rparr>),
            (ip srvB, (mkHealth True False None)\<lparr>isAssigned := True\<rparr>)],
           [recA, \<lparr>id' = freshIds 0, content = ip srvB\<rparr>], [])
   \<and> card (content ` set [recA, recC]) = 2
   \<and> (\<exists>sh2. planActions compareNames (clockAt 101000) [srvC, srvA, srvB]
          [(ip srvC, mkHealth False False (Some 55000)),
           (ip srvA, (mkHealth True False None)\<lparr>isAssigned := True\<rparr>),
           (ip srvB, (mkHealth True False None)\<lparr>isAssigned := True\<rparr>)]
          [recA, \<lparr>id' = freshIds 0, content = ip srvB\<rparr>] = Some (sh2, []))"
proof -
  have 1: "distinct (map id' [recA, recC])" by (simp add: ex_defs)
  have 2: "distinct (map content [recA, recC])" by (simp add: ex_defs)
  have 3: "\<forall>i. freshIds i \<notin> id' ` set [recA, recC]" by (simp add: ex_defs)
  have 4: "card (content ` set [recA, recC]) = 2" by (simp add: ex_defs)
  have 5: "\<forall>j<length [srvC, srvA, srvB]. \<forall>h.
         map_of scenario1 (ip (Array_sort (\<lambda>a b. compareNames (name a) (name b)) [srvC, srvA, srvB] ! j))
           = Some h \<longrightarrow>
         (clockAt 101000 j - toNumber (lastUnhealthyTime h) < 30000) =
         (clockAt 100000 j - toNumber (lastUnhealthyTime h) < 30000)"
    unfolding scenario1_sorted
    by (auto simp: ex_defs toNumber_def less_Suc_eq numeral_eq_Suc)
  from rerun_plans_nothing [OF 1 2 3 scenario1_run 5] 4 scenario1_run show ?thesis by auto
qed

text \<open>
  The claim as stated fails even with the clock standing still: the floor keeps the
  only published server \<open>charlie\<close>, down for 45 s, while \<open>bravo\<close> is added; the re-run
  on the new ground truth then sees two published addresses and removes \<open>charlie\<close>.
\<close>

theorem rerun_counterexample:
  "manageDNSRecords compareNames (clockAt 100000) True allAccepted freshIds [srvB, srvC]
      (oneKept, [recC]) =
     Some ([(ip srvB, (mkHealth True False None)\<lparr>isAssigned := True\<rparr>),
            (ip srvC, (mkHealth False False (Some 55000))\<lparr>isAssigned := True\<rparr>)],
           [recC, \<lparr>id' = freshIds 0, content = ip srvB\<rparr>], [])
   \<and> planActions compareNames (clockAt 100000) [srvB, srvC]
        [(ip srvB, (mkHealth True False None)\<lparr>isAssigned := True\<rparr>),
         (ip srvC, (mkHealth False False (Some 55000))\<lparr>isAssigned := True\<rparr>)]
        [recC, \<lparr>id' = freshIds 0, content = ip srvB\<rparr>] =
     Some ([(ip srvB, (mkHealth True False None)\<lparr>isAssigned := True\<rparr>),
            (ip srvC, (mkHealth False False (Some 55000))\<lparr>isAssigned := True\<rparr>)],
           [Unassign srvC (id' recC)])"
  by (simp add: ex_defs run_defs)

section \<open>Retry and backoff\<close>

declare makeRequestFrom.simps [simp del]

lemma makeRequestFrom_run:
  assumes "a \<le> n" and "n \<le> length (retryDelays c)"
    and "\<forall>i. a \<le> i \<and> i < n \<longrightarrow> (\<exists>e. requestFn i = Rejected e \<and> isRetryable e)"
    and "n = length (retryDelays c) \<or> (\<forall>e. requestFn n = Rejected e \<longrightarrow> \<not> isRetryable e)"
  shows "\<exists>c' trace'.
           makeRequestFrom requestFn readings a c t = (settle (requestFn n), c', t @ trace')
           \<and> filter (\<lambda>ev. \<not> is_RateLimitWait ev) trace' =
               concat (map (\<lambda>i. [Request i, Backoff (retryDelays c ! i)]) [a..<n]) @ [Request n]
           \<and> ((\<forall>i. a \<le> i \<and> i < n \<longrightarrow>
                   snd (readings i) + retryDelays c ! i \<le> fst (readings (Suc i)))
                \<and> (\<forall>d\<in>set (retryDelays c). minInterval c \<le> d) \<longrightarrow>
               trace' =
                 (if fst (readings a) - lastRequest c < minInterval c
                  then [RateLimitWait (minInterval c - (fst (readings a) - lastRequest c))]
                  else [])
                 @ concat (map (\<lambda>i. [Request i, Backoff (retryDelays c ! i)]) [a..<n])
                 @ [Request n])"
  using assms
proof (induction "n - a" arbitrary: a c t)
  case 0
  then have an: "a = n" by simp
  show ?case
    using 0(3,5) unfolding an
    by (subst makeRequestFrom.simps)
       (auto simp: Let_def settle_def split: outcome.splits)
next
  case (Suc k)
  then have lt: "a < n" by simp
  with Suc.prems obtain e where e: "requestFn a = Rejected e" "isRetryable e" by blast
  let ?c1 = "c\<lparr>lastRequest := snd (readings a)\<rparr>"
  let ?w = "if fst (readings a) - lastRequest c < minInterval c
            then [RateLimitWait (minInterval c - (fst (readings a) - lastRequest c))] else []"
  let ?t1 = "t @ ?w @ [Request a, Backoff (retryDelays c ! a)]"
  have step: "makeRequestFrom requestFn readings a c t =
              makeRequestFrom requestFn readings (Suc a) ?c1 ?t1"
    using e lt Suc.prems(2)
    by (subst makeRequestFrom.simps) (simp add: Let_def)
  have k: "k = n - Suc a" using Suc.hyps(2) by simp
  have p1: "Suc a \<le> n" using lt by simp
  have p2: "n \<le> length (retryDelays ?c1)" using Suc.prems(2) by simp
  have p3: "\<forall>i. Suc a \<le> i \<and> i < n \<longrightarrow> (\<exists>e. requestFn i = Rejected e \<and> isRetryable e)"
    using Suc.prems(3) by simp
  have p4: "n = length (retryDelays ?c1) \<or> (\<forall>e. requestFn n = Rejected e \<longrightarrow> \<not> isRetryable e)"
    using Suc.prems(4) by simp
  from Suc.hyps(1) [OF k p1 p2 p3 p4, of ?t1] obtain c' trace' where
    run: "makeRequestFrom requestFn readings (Suc a) ?c1 ?t1 = (settle (requestFn n), c', ?t1 @ trace')"
    and flt: "filter (\<lambda>ev. \<not> is_RateLimitWait ev) trace' =
               concat (map (\<lambda>i. [Request i, Backoff (retryDelays c ! i)]) [Suc a..<n]) @ [Request n]"
    and exact: "(\<forall>i. Suc a \<le> i \<and> i < n \<longrightarrow>
                   snd (readings i) + retryDelays c ! i \<le> fst (readings (Suc i)))
                \<and> (\<forall>d\<in>set (retryDelays c). minInterval c \<le> d) \<longrightarrow>
               trace' =
                 (if fst (readings (Suc a)) - snd (readings a) < minInterval c
                  then [RateLimitWait (minInterval c - (fst (readings (Suc a)) - snd (readings a)))]
                  else [])
                 @ concat (map (\<lambda>i. [Request i, Backoff (retryDelays c ! i)]) [Suc a..<n])
                 @ [Request n]"
    by auto
  let ?tr = "?w @ [Request a, Backoff (retryDelays c ! a)] @ trace'"
  have upt: "[a..<n] = a # [Suc a..<n]" using lt by (simp add: upt_conv_Cons)
  have 1: "makeRequestFrom requestFn readings a c t = (settle (requestFn n), c', t @ ?tr)"
    using step run by simp
  have 2: "filter (\<lambda>ev. \<not> is_RateLimitWait ev) ?tr =
             concat (map (\<lambda>i. [Request i, Backoff (retryDelays c ! i)]) [a..<n]) @ [Request n]"
    using flt by (simp add: upt)
  have 3: "?tr = ?w @ concat (map (\<lambda>i. [Request i, Backoff (retryDelays c ! i)]) [a..<n])
                 @ [Request n]"
    if clk: "\<forall>i. a \<le> i \<and> i < n \<longrightarrow>
                   snd (readings i) + retryDelays c ! i \<le> fst (readings (Suc i))"
      and mi: "\<forall>d\<in>set (retryDelays c). minInterval c \<le> d"
  proof -
    from clk lt have "snd (readings a) + retryDelays c ! a \<le> fst (readings (Suc a))" by simp
    moreover from mi lt Suc.prems(2) have "minInterval c \<le> retryDelays c ! a" by simp
    ultimately have "\<not> fst (readings (Suc a)) - snd (readings a) < minInterval c" by simp
    with exact clk mi have "trace' =
        concat (map (\<lambda>i. [Request i, Backoff (retryDelays c ! i)]) [Suc a..<n]) @ [Request n]"
      by simp
    then show ?thesis by (simp add: upt)
  qed
  from 1 2 3 show ?case by blast
qed


lemma retry_index_exists:
  "\<exists>n\<le>4::nat. (\<forall>i<n. \<exists>e. requestFn i = Rejected e \<and> isRetryable e)
          \<and> (n = 4 \<or> (\<forall>e. requestFn n = Rejected e \<longrightarrow> \<not> isRetryable e))"
proof (cases "\<forall>i<4::nat. \<exists>e. requestFn i = Rejected e \<and> isRetryable e")
  case True
  then show ?thesis by (intro exI [of _ 4]) simp
next
  case False
  define P where "P i = (\<not> (\<exists>e. requestFn i = Rejected e \<and> isRetryable e))" for i
  from False obtain i :: nat where i: "i < 4" "P i" by (auto simp: P_def)
  define n where "n = (LEAST i. P i)"
  have "P n" unfolding n_def using i(2) by (rule LeastI)
  moreover have "n \<le> i" unfolding n_def using i(2) by (rule Least_le)
  moreover have "\<not> P j" if "j < n" for j using that not_less_Least unfolding n_def by blast
  ultimately show ?thesis using i(1)
    by (intro exI [of _ n]) (auto simp: P_def)
qed

text \<open>
  C8. A call of \<^verbatim>\<open>makeRequest\<close> on a client with the constructor's settings makes
  \<open>n + 1 \<le> 5\<close> attempts, where the first \<open>n\<close> attempts fail with a retryable error and
  attempt \<open>n + 1\<close> is the fifth or does not fail with a retryable error (every call has
  such an \<open>n\<close>, see \<open>retry_index_exists\<close>). The call ends as attempt \<open>n + 1\<close> does: it
  returns its value, or throws its error on. Between the attempts it waits 1000, 2000,
  4000, 8000 ms in this order, and after the last attempt it waits for nothing; when the
  clock advances by at least the waited time, the rate limiter adds a wait before the
  first attempt only. An error is retryable iff its status is 429, the provider's code
  is 10013, its code is ECONNRESET or ETIMEDOUT, or its status is in 500-599.
\<close>

theorem makeRequest_retry_policy:
  assumes "retryDelays c = [1000, 2000, 4000, 8000]" and "minInterval c = 1000"
    and "n \<le> 4"
    and "\<forall>i<n. \<exists>e. requestFn i = Rejected e \<and> isRetryable e"
    and "n = 4 \<or> (\<forall>e. requestFn n = Rejected e \<longrightarrow> \<not> isRetryable e)"
  shows "(\<exists>c' trace.
            makeRequest requestFn readings c = (settle (requestFn n), c', trace)
            \<and> filter (\<lambda>ev. \<not> is_RateLimitWait ev) trace =
                concat (map (\<lambda>i. [Request i, Backoff ([1000, 2000, 4000, 8000] ! i)]) [0..<n])
                @ [Request n]
            \<and> ((\<forall>i<n. snd (readings i) + [1000, 2000, 4000, 8000] ! i \<le> fst (readings (Suc i)))
                 \<longrightarrow> trace =
                   (if fst (readings 0) - lastRequest c < 1000
                    then [RateLimitWait (1000 - (fst (readings 0) - lastRequest c))] else [])
                   @ concat (map (\<lambda>i. [Request i, Backoff ([1000, 2000, 4000, 8000] ! i)]) [0..<n])
                   @ [Request n]))
         \<and> (\<forall>e. isRetryable e =
                (responseStatus e = Some 429 \<or> providerCode e = Some 10013
                 \<or> errorCode e = Some ''ECONNRESET'' \<or> errorCode e = Some ''ETIMEDOUT''
                 \<or> (\<exists>st. responseStatus e = Some st \<and> 500 \<le> st \<and> st < 600)))"
proof
  have 1: "0 \<le> n" by simp
  have 2: "n \<le> length (retryDelays c)" using assms(1,3) by simp
  have 3: "\<forall>i. 0 \<le> i \<and> i < n \<longrightarrow> (\<exists>e. requestFn i = Rejected e \<and> isRetryable e)"
    using assms(4) by simp
  have 4: "n = length (retryDelays c) \<or> (\<forall>e. requestFn n = Rejected e \<longrightarrow> \<not> isRetryable e)"
    using assms(1,5) by auto
  from makeRequestFrom_run [OF 1 2 3 4, of readings "[]"] obtain c' trace where
    run: "makeRequest requestFn readings c = (settle (requestFn n), c', trace)"
    and flt: "filter (\<lambda>ev. \<not> is_RateLimitWait ev) trace =
               concat (map (\<lambda>i. [Request i, Backoff (retryDelays c ! i)]) [0..<n]) @ [Request n]"
    and exact: "(\<forall>i. 0 \<le> i \<and> i < n \<longrightarrow>
                   snd (readings i) + retryDelays c ! i \<le> fst (readings (Suc i)))
                \<and> (\<forall>d\<in>set (retryDelays c). minInterval c \<le> d) \<longrightarrow>
               trace =
                 (if fst (readings 0) - lastRequest c < minInterval c
                  then [RateLimitWait (minInterval c - (fst (readings 0) - lastRequest c))]
                  else [])
                 @ concat (map (\<lambda>i. [Request i, Backoff (retryDelays c ! i)]) [0..<n])
                 @ [Request n]"
    unfolding makeRequest_def by auto
  show "\<exists>c' trace.
            makeRequest requestFn readings c = (settle (requestFn n), c', trace)
            \<and> filter (\<lambda>ev. \<not> is_RateLimitWait ev) trace =
                concat (map (\<lambda>i. [Request i, Backoff ([1000, 2000, 4000, 8000] ! i)]) [0..<n])
                @ [Request n]
            \<and> ((\<forall>i<n. snd (readings i) + [1000, 2000, 4000, 8000] ! i \<le> fst (readings (Suc i)))
                 \<longrightarrow> trace =
                   (if fst (readings 0) - lastRequest c < 1000
                    then [RateLimitWait (1000 - (fst (readings 0) - lastRequest c))] else [])
                   @ concat (map (\<lambda>i. [Request i, Backoff ([1000, 2000, 4000, 8000] ! i)]) [0..<n])
                   @ [Request n])"
    using run flt exact unfolding assms(1,2) by (intro exI [of _ c'] exI [of _ trace]) simp
  show "\<forall>e. isRetryable e =
                (responseStatus e = Some 429 \<or> providerCode e = Some 10013
                 \<or> errorCode e = Some ''ECONNRESET'' \<or> errorCode e = Some ''ETIMEDOUT''
                 \<or> (\<exists>st. responseStatus e = Some st \<and> 500 \<le> st \<and> st < 600))"
    by (auto simp: isRetryable_def Let_def split: option.splits)
qed

theorem makeRequest_retry_policy_witness:
  "(\<exists>c'. makeRequest flaky slowReadings newClient =
      (Return ''ok'', c',
       [Request 0, Backoff 1000, Request 1, Backoff 2000, Request 2, Backoff 4000,
        Request 3, Backoff 8000, Request 4]))
   \<and> (\<exists>c'. makeRequest notFound slowReadings newClient =
      (Throw \<lparr>responseStatus = Some 404, providerCode = None, errorCode = None\<rparr>, c',
       [Request 0]))"
proof -
  have c: "retryDelays newClient = [1000, 2000, 4000, 8000]" "minInterval newClient = 1000"
    by (simp_all add: newClient_def)
  have f: "\<forall>i<4. \<exists>e. flaky i = Rejected e \<and> isRetryable e"
    by (simp add: flaky_def isRetryable_def)
  have r: "\<forall>i<4. snd (slowReadings i) + [1000, 2000, 4000, 8000] ! i \<le> fst (slowReadings (Suc i))"
    by (auto simp: slowReadings_def less_Suc_eq numeral_eq_Suc)
  have u: "[0..<4] = [0, 1, 2, 3]" by (simp add: upt_rec)
  have g: "\<forall>i<0. \<exists>e. notFound i = Rejected e \<and> isRetryable e" by simp
  have l: "0 = 4 \<or> (\<forall>e. notFound 0 = Rejected e \<longrightarrow> \<not> isRetryable e)"
    by (simp add: notFound_def isRetryable_def)
  have sf: "settle (flaky 4) = Return ''ok''" by (simp add: settle_def flaky_def)
  have sn: "settle (notFound 0) =
              Throw \<lparr>responseStatus = Some 404, providerCode = None, errorCode = None\<rparr>"
    by (simp add: settle_def notFound_def)
  have w: "\<not> fst (slowReadings 0) - lastRequest newClient < 1000"
    by (simp add: slowReadings_def newClient_def)
  from makeRequest_retry_policy [OF c _ f, of slowReadings] r
  have 1: "\<exists>c'. makeRequest flaky slowReadings newClient =
      (Return ''ok'', c',
       [Request 0, Backoff 1000, Request 1, Backoff 2000, Request 2, Backoff 4000,
        Request 3, Backoff 8000, Request 4])"
    unfolding sf u using w by auto
  from makeRequest_retry_policy [OF c _ g l, of slowReadings]
  have 2: "\<exists>c'. makeRequest notFound slowReadings newClient =
      (Throw \<lparr>responseStatus = Some 404, providerCode = None, errorCode = None\<rparr>, c',
       [Request 0])"
    unfolding sn using w by auto
  from 1 2 show ?thesis ..
qed

section \<open>Probe classification\<close>

text \<open>
  C9, as the code has it. A rejected request (timeout, transport error, a status the
  HTTP client refuses) is classified healthy = false, isPrimary = false. A fulfilled
  response is healthy iff its status is 200, and isPrimary iff the \<^verbatim>\<open>isMongoPrimary\<close>
  member of its body is the boolean \<^verbatim>\<open>true\<close> itself, whatever the status; so
  isPrimary implies a truthy role indicator, not the other way round.
\<close>

theorem checkHealth_classification:
  "(\<forall>e. checkHealth (Rejected e) = \<lparr>isHealthy = False, isPrimary = False\<rparr>)
   \<and> (\<forall>res. isHealthy (checkHealth (Resolved res)) = (status res = 200))
   \<and> (\<forall>res. isPrimary (checkHealth (Resolved res)) =
          (optionalMember (data res) ''isMongoPrimary'' = JBool True))
   \<and> (\<forall>res. isPrimary (checkHealth (Resolved res)) \<longrightarrow>
          truthy (optionalMember (data res) ''isMongoPrimary''))"
  by (simp add: checkHealth_def truthy_def)

theorem checkHealth_classification_witness:
  "isPrimary (checkHealth (Resolved \<lparr>status = 200, data = JObject [(''isMongoPrimary'', JBool True)]\<rparr>))
   \<and> truthy (optionalMember (data \<lparr>status = 200, data = JObject [(''isMongoPrimary'', JBool True)]\<rparr>)
        ''isMongoPrimary'')"
proof -
  let ?r = "\<lparr>status = 200, data = JObject [(''isMongoPrimary'', JBool True)]\<rparr>"
  have p: "isPrimary (checkHealth (Resolved ?r))"
    by (simp add: checkHealth_def optionalMember_def)
  from checkHealth_classification
  have "isPrimary (checkHealth (Resolved ?r)) \<longrightarrow>
          truthy (optionalMember (data ?r) ''isMongoPrimary'')"
    by blast
  with p show ?thesis by simp
qed

text \<open>
  The claim as stated fails twice: a fulfilled response with status 201 and a primary
  body is classified unhealthy and primary, and the truthy role indicator \<^verbatim>\<open>1\<close> on a
  status 200 does not make the server primary.
\<close>

theorem checkHealth_counterexample:
  "checkHealth (Resolved \<lparr>status = 201, data = JObject [(''isMongoPrimary'', JBool True)]\<rparr>) =
     \<lparr>isHealthy = False, isPrimary = True\<rparr>
   \<and> truthy (optionalMember (JObject [(''isMongoPrimary'', JNumber 1)]) ''isMongoPrimary'')
   \<and> checkHealth (Resolved \<lparr>status = 200, data = JObject [(''isMongoPrimary'', JNumber 1)]\<rparr>) =
     \<lparr>isHealthy = True, isPrimary = False\<rparr>"
  by (simp add: checkHealth_def optionalMember_def truthy_def)

section \<open>A server that was unhealthy from the start\<close>

subsection \<open>The health map and its keys\<close>

lemma map_of_foldl_init:
  "map_of (foldl (\<lambda>sh s. AList.update (ip s) initialHealth sh) acc servers) k =
     (if k \<in> ip ` set servers then Some initialHealth else map_of acc k)"
  by (induction servers arbitrary: acc) (auto simp: AList.update_conv')

lemma map_of_initServerHealth:
  "map_of (initServerHealth servers) k =
     (if k \<in> ip ` set servers then Some initialHealth else None)"
  by (simp add: initServerHealth_def map_of_foldl_init)

lemma dom_initServerHealth: "dom (map_of (initServerHealth servers)) = ip ` set servers"
  by (auto simp: map_of_initServerHealth dom_def)

lemma updateServerHealth_dom:
  assumes "updateServerHealth now srv r sh = Some sh'"
  shows "dom (map_of sh') = dom (map_of sh)"
proof -
  from assms obtain h v where "map_of sh (ip srv) = Some h" "sh' = AList.update (ip srv) v sh"
    by (auto simp: updateServerHealth_def Let_def split: option.splits)
  then show ?thesis by (auto simp: AList.update_conv')
qed

lemma updateServerHealths_dom:
  "updateServerHealths stamp i results sh = Some sh' \<Longrightarrow> dom (map_of sh') = dom (map_of sh)"
proof (induction results arbitrary: i sh)
  case Nil
  then show ?case by simp
next
  case (Cons x rest)
  obtain srv r where x: "x = (srv, r)" by (cases x)
  with Cons.prems obtain sh1 where "updateServerHealth (stamp i) srv r sh = Some sh1"
    "updateServerHealths stamp (Suc i) rest sh1 = Some sh'"
    by (auto split: option.splits)
  with Cons.IH updateServerHealth_dom show ?case by metis
qed

lemma updateAssignment_dom:
  "updateAssignment ips servers sh = Some sh' \<Longrightarrow> dom (map_of sh') = dom (map_of sh)"
  by (auto simp: updateAssignment_map_of dom_def)

text \<open>A server that was never seen healthy keeps its initial timestamps.\<close>

lemma updateServerHealth_never_healthy:
  assumes "updateServerHealth now srv r sh = Some sh'"
    and "map_of sh k = Some h" and "\<not> isHealthy h" and "lastUnhealthyTime h = None"
    and "ip srv = k \<longrightarrow> \<not> isHealthy r"
  shows "\<exists>h'. map_of sh' k = Some h' \<and> \<not> isHealthy h' \<and> lastUnhealthyTime h' = None"
  using assms
  by (auto simp: updateServerHealth_def Let_def AList.update_conv' split: option.splits if_splits)

lemma updateServerHealths_never_healthy:
  assumes "updateServerHealths stamp i results sh = Some sh'"
    and "map_of sh k = Some h" and "\<not> isHealthy h" and "lastUnhealthyTime h = None"
    and "\<forall>(srv, r)\<in>set results. ip srv = k \<longrightarrow> \<not> isHealthy r"
  shows "\<exists>h'. map_of sh' k = Some h' \<and> \<not> isHealthy h' \<and> lastUnhealthyTime h' = None"
  using assms
proof (induction results arbitrary: i sh h)
  case Nil
  then show ?case by simp
next
  case (Cons x rest)
  obtain srv r where x: "x = (srv, r)" by (cases x)
  with Cons.prems(1) obtain sh1 where s: "updateServerHealth (stamp i) srv r sh = Some sh1"
    and rest: "updateServerHealths stamp (Suc i) rest sh1 = Some sh'"
    by (auto split: option.splits)
  from Cons.prems(5) x have "ip srv = k \<longrightarrow> \<not> isHealthy r" by simp
  from updateServerHealth_never_healthy [OF s Cons.prems(2,3,4) this]
  obtain h1 where h1: "map_of sh1 k = Some h1" "\<not> isHealthy h1" "lastUnhealthyTime h1 = None"
    by blast
  from Cons.prems(5) have "\<forall>(srv, r)\<in>set rest. ip srv = k \<longrightarrow> \<not> isHealthy r" by simp
  from Cons.IH [OF rest h1 this] show ?case .
qed

text \<open>
  C10. After the initialisation and the first cycle's probes, a configured server whose
  probes all came back unhealthy still has \<^verbatim>\<open>lastUnhealthyTime = null\<close>. If its address
  is published, then after the resynchronisation \<open>shouldUnassignIP\<close> returns true for
  it as soon as the assigned count is at least 2: the elapsed time is \<open>now - 0\<close>, which
  exceeds the grace period for every clock reading of at least 30000 ms after the epoch.
\<close>

theorem unhealthy_since_start_no_grace:
  assumes "s \<in> set servers"
    and "updateServerHealths stamp 0 results (initServerHealth servers) = Some sh"
    and "\<forall>(srv, r)\<in>set results. ip srv = ip s \<longrightarrow> \<not> isHealthy r"
    and "updateAssignment currentIPs servers sh = Some sh'"
    and "ip s \<in> currentIPs"
    and "2 \<le> assignedCount"
    and "30000 \<le> now"
  shows "(\<exists>h. map_of sh' (ip s) = Some h \<and> lastUnhealthyTime h = None \<and> isAssigned h
              \<and> \<not> isHealthy h)
         \<and> shouldUnassignIP sh' now s assignedCount = Some True"
proof -
  have "map_of (initServerHealth servers) (ip s) = Some initialHealth"
    using assms(1) by (simp add: map_of_initServerHealth)
  moreover have "\<not> isHealthy initialHealth" "lastUnhealthyTime initialHealth = None"
    by (simp_all add: initialHealth_def)
  ultimately obtain h where h: "map_of sh (ip s) = Some h" "\<not> isHealthy h"
    "lastUnhealthyTime h = None"
    using updateServerHealths_never_healthy [OF assms(2) _ _ _ assms(3)] by blast
  have h': "map_of sh' (ip s) = Some (h\<lparr>isAssigned := True\<rparr>)"
    using h(1) assms(1,5) by (simp add: updateAssignment_map_of [OF assms(4)])
  with h(2,3) assms(6,7) show ?thesis
    by (simp add: shouldUnassignIP_def toNumber_def GRACE_PERIOD_MS_def)
qed

theorem unhealthy_since_start_no_grace_witness:
  "shouldUnassignIP
     [(ip srvA, (mkHealth True False None)\<lparr>lastHealthyTime := Some 100000, isAssigned := True\<rparr>),
      (ip srvC, (mkHealth False False None)\<lparr>isAssigned := True\<rparr>)]
     100500 srvC 2 = Some True"
proof -
  have 1: "srvC \<in> set [srvA, srvC]" by simp
  have 2: "updateServerHealths (clockAt 100000) 0
             [(srvA, \<lparr>isHealthy = True, isPrimary = False\<rparr>),
              (srvC, \<lparr>isHealthy = False, isPrimary = False\<rparr>)]
             (initServerHealth [srvA, srvC]) =
           Some [(ip srvA, (mkHealth True False None)\<lparr>lastHealthyTime := Some 100000\<rparr>),
                 (ip srvC, mkHealth False False None)]"
    by (simp add: ex_defs initServerHealth_def initialHealth_def updateServerHealth_def)
  have 3: "\<forall>(srv, r)\<in>set [(srvA, \<lparr>isHealthy = True, isPrimary = False\<rparr>),
              (srvC, \<lparr>isHealthy = False, isPrimary = False\<rparr>)]. ip srv = ip srvC \<longrightarrow> \<not> isHealthy r"
    by (simp add: ex_defs)
  have 4: "updateAssignment {ip srvA, ip srvC} [srvA, srvC]
             [(ip srvA, (mkHealth True False None)\<lparr>lastHealthyTime := Some 100000\<rparr>),
              (ip srvC, mkHealth False False None)] =
           Some [(ip srvA, (mkHealth True False None)\<lparr>lastHealthyTime := Some 100000, isAssigned := True\<rparr>),
                 (ip srvC, (mkHealth False False None)\<lparr>isAssigned := True\<rparr>)]"
    by (simp add: ex_defs)
  have 5: "ip srvC \<in> {ip srvA, ip srvC}" by simp
  from unhealthy_since_start_no_grace [OF 1 2 3 4 5, of 2 100500] show ?thesis by simp
qed

end
